theory Spec2Isabelle
  imports Main "HOL-Library.Word" "HOL-Library.Monad_Syntax"
begin

section \<open>LED tunnel: colour values, configuration and the colour buffer\<close>

text \<open>
  The model follows the final revision of \<^verbatim>\<open>LEDTunnel.ino\<close> (the one with
  \<^verbatim>\<open>Init\<close>, \<^verbatim>\<open>WrapUp\<close> and the sequence timer). The sketch's \<^verbatim>\<open>int\<close>
  variables are modelled as unbounded integers: every counter of the sketch stays far inside
  16 bits (timers are reset to at most 9999 and count down for at most a few hundred ticks).
  Colour channels are bytes.

  An array access whose index depends on run-time state is checked: \<open>rd\<close> and \<open>wr\<close> return
  \<open>None\<close> where the C++ access would be out of bounds.
\<close>

datatype CHSV = CHSV (hue: "8 word") (sat: "8 word") (val: "8 word")

datatype CRGB = CRGB (red: "8 word") (green: "8 word") (blue: "8 word")

definition NUM_STRIPS :: int where "NUM_STRIPS = 8"
definition NUM_STRIP_LEDS :: int where "NUM_STRIP_LEDS = 150"
definition ZIG_ZAG :: bool where "ZIG_ZAG = True"
definition SEQUENCE_DURATION :: int where "SEQUENCE_DURATION = 300"
definition WRAPUP_WARNING_OFFSET :: int where "WRAPUP_WARNING_OFFSET = 20"

definition S_RING_CHASE_NUM_PULSE_COLORS :: int where "S_RING_CHASE_NUM_PULSE_COLORS = 3"
definition S_RING_CHASE_COLORS :: "CHSV list" where
  "S_RING_CHASE_COLORS = [CHSV 190 255 255, CHSV 30 255 255, CHSV 96 255 255]"
definition S_RING_CHASE_PULSE_FREQUENCY :: int where "S_RING_CHASE_PULSE_FREQUENCY = 45"
definition S_RING_CHASE_FALLOF_RATE :: int where "S_RING_CHASE_FALLOF_RATE = 8"
definition S_RING_CHASE_RING_SHIFT_FREQUENCY :: int where "S_RING_CHASE_RING_SHIFT_FREQUENCY = 2"

definition S_TWINKLE_NUM_COLORS :: int where "S_TWINKLE_NUM_COLORS = 1"
text \<open>The array is declared with three elements and one initialiser; the other two are
  zero-initialised static storage.\<close>
definition S_TWINKLE_COLORS :: "CHSV list" where
  "S_TWINKLE_COLORS = [CHSV 190 255 255, CHSV 0 0 0, CHSV 0 0 0]"
definition S_TWINKLE_FREQUENCY :: int where "S_TWINKLE_FREQUENCY = 2"
definition S_TWINKLE_FALLOFF_RATE :: int where "S_TWINKLE_FALLOFF_RATE = 10"
definition S_TWINKLE_BRIGHTNESS_VARIANCE :: int where "S_TWINKLE_BRIGHTNESS_VARIANCE = 100"

definition S_TRACE_CHASE_NUM_COLORS :: int where "S_TRACE_CHASE_NUM_COLORS = 3"
definition S_TRACE_CHASE_COLORS :: "CHSV list" where
  "S_TRACE_CHASE_COLORS = [CHSV 190 255 255, CHSV 30 255 255, CHSV 96 255 255]"
definition S_TRACE_FALLOFF_RATE :: int where "S_TRACE_FALLOFF_RATE = 25"
definition S_TRACE_SPEED :: int where "S_TRACE_SPEED = 3"
definition S_TRACE_OFFSET :: int where "S_TRACE_OFFSET = 15"

definition NUM_SEQUENCES :: int where "NUM_SEQUENCES = 3"

lemmas config =
  NUM_STRIPS_def NUM_STRIP_LEDS_def ZIG_ZAG_def SEQUENCE_DURATION_def
  WRAPUP_WARNING_OFFSET_def S_RING_CHASE_NUM_PULSE_COLORS_def S_RING_CHASE_COLORS_def
  S_RING_CHASE_PULSE_FREQUENCY_def S_RING_CHASE_FALLOF_RATE_def
  S_RING_CHASE_RING_SHIFT_FREQUENCY_def S_TWINKLE_NUM_COLORS_def S_TWINKLE_COLORS_def
  S_TWINKLE_FREQUENCY_def S_TWINKLE_FALLOFF_RATE_def S_TWINKLE_BRIGHTNESS_VARIANCE_def
  S_TRACE_CHASE_NUM_COLORS_def S_TRACE_CHASE_COLORS_def S_TRACE_FALLOFF_RATE_def
  S_TRACE_SPEED_def S_TRACE_OFFSET_def NUM_SEQUENCES_def

definition GetStrip :: "int \<Rightarrow> int" where
  "GetStrip stripIndex = stripIndex * NUM_STRIP_LEDS"

definition rd :: "'a list \<Rightarrow> int \<Rightarrow> 'a option" where
  "rd xs i = (if 0 \<le> i \<and> i < int (length xs) then Some (xs ! nat i) else None)"

definition wr :: "'a list \<Rightarrow> int \<Rightarrow> 'a \<Rightarrow> 'a list option" where
  "wr xs i x = (if 0 \<le> i \<and> i < int (length xs) then Some (xs[nat i := x]) else None)"

subsection \<open>Writes to the colour buffer\<close>

text \<open>
  A sequence's \<^verbatim>\<open>Update\<close> touches the global \<^verbatim>\<open>leds\<close> array in two ways only:
  \<^verbatim>\<open>leds[i] = c\<close> for a \<^verbatim>\<open>CHSV\<close> value \<open>c\<close> (FastLED converts it to RGB), and
  \<^verbatim>\<open>leds[i].nscale8(scale)\<close>. \<open>Update\<close> is modelled as returning the new private state
  together with the buffer operations it performs, in program order; \<open>exec_ops\<close> carries them
  out on the buffer, and fails on an index outside the buffer.
\<close>

datatype led_op = SetHSV int CHSV | Nscale8 int "8 word"

text \<open>Modelled from the spec: FastLED's \<^verbatim>\<open>scale8\<close> and \<^verbatim>\<open>CRGB::nscale8\<close> are library
  code outside the repository. The spec describes the decay as proportional attenuation by
  \<open>scale = 255 - falloff\<close>; FastLED computes \<open>(channel * (scale + 1)) >> 8\<close> on each of the
  three channels.\<close>
definition scale8 :: "8 word \<Rightarrow> 8 word \<Rightarrow> 8 word" where
  "scale8 i scale = word_of_nat ((unat i * (unat scale + 1)) div 256)"

definition nscale8 :: "CRGB \<Rightarrow> 8 word \<Rightarrow> CRGB" where
  "nscale8 c scaledown =
     CRGB (scale8 (red c) scaledown) (scale8 (green c) scaledown) (scale8 (blue c) scaledown)"

text \<open>The HSV to RGB conversion of the assignment \<^verbatim>\<open>leds[i] = c\<close> is FastLED's; it is a
  parameter \<open>cv\<close> of the model.\<close>
fun exec_op :: "(CHSV \<Rightarrow> CRGB) \<Rightarrow> led_op \<Rightarrow> CRGB list \<Rightarrow> CRGB list option" where
  "exec_op cv (SetHSV i c) leds = wr leds i (cv c)"
| "exec_op cv (Nscale8 i scaledown) leds =
     do { px \<leftarrow> rd leds i; wr leds i (nscale8 px scaledown) }"

fun exec_ops :: "(CHSV \<Rightarrow> CRGB) \<Rightarrow> led_op list \<Rightarrow> CRGB list \<Rightarrow> CRGB list option" where
  "exec_ops cv [] leds = Some leds"
| "exec_ops cv (op # ops) leds = do { leds' \<leftarrow> exec_op cv op leds; exec_ops cv ops leds' }"

text \<open>The loop \<^verbatim>\<open>for (i = 0; i < NUM_STRIPS * NUM_STRIP_LEDS; i++) leds[i].nscale8(255 - rate)\<close>
  that ends \<^verbatim>\<open>S_Twinkle::Update\<close> and \<^verbatim>\<open>S_TraceChase::Update\<close>.\<close>
definition fade :: "int \<Rightarrow> led_op list" where
  "fade rate = map (\<lambda>i. Nscale8 i (word_of_int (255 - rate))) [0 .. NUM_STRIPS * NUM_STRIP_LEDS - 1]"

text \<open>The index of the write a buffer operation performs.\<close>
fun op_index :: "led_op \<Rightarrow> int" where
  "op_index (SetHSV i c) = i"
| "op_index (Nscale8 i scaledown) = i"

section \<open>S_RingChase\<close>

record S_RingChase =
  rings :: "CHSV list"
  pulseTimer :: int
  pulseRingShiftTimer :: int
  pulseRingIndex :: int
  pulseColorIndex :: int

text \<open>
  The constructor runs after the default member initialisers and copies
  \<^verbatim>\<open>S_RING_CHASE_COLORS[pulseColorIndex]\<close> into every ring. The read is performed whatever
  the index is; where it is outside the palette the value is whatever follows the palette in
  memory, the parameter \<open>past_end\<close>.
\<close>
definition S_RingChase_new :: "CHSV \<Rightarrow> S_RingChase" where
  "S_RingChase_new past_end =
     (let pulseColorIndex0 = S_RING_CHASE_NUM_PULSE_COLORS in
      \<lparr>rings = map (\<lambda>i. case rd S_RING_CHASE_COLORS pulseColorIndex0 of
                             Some c \<Rightarrow> c | None \<Rightarrow> past_end) [0 .. NUM_STRIPS - 1],
       pulseTimer = 0, pulseRingShiftTimer = 0, pulseRingIndex = 0,
       pulseColorIndex = pulseColorIndex0\<rparr>)"

definition S_RingChase_Init :: "S_RingChase \<Rightarrow> S_RingChase" where
  "S_RingChase_Init s =
     s\<lparr>pulseTimer := 0, pulseRingShiftTimer := 0, pulseRingIndex := 0,
       pulseColorIndex := S_RING_CHASE_NUM_PULSE_COLORS\<rparr>"

definition S_RingChase_WrapUp :: "S_RingChase \<Rightarrow> S_RingChase" where
  "S_RingChase_WrapUp s = s\<lparr>pulseTimer := 9999\<rparr>"

text \<open>The third argument of \<^verbatim>\<open>CHSV(h, s, v - RATE < 0 ? 0 : v - RATE)\<close>, computed in
  \<^verbatim>\<open>int\<close> after integer promotion of the byte \<open>v\<close>.\<close>
definition falloff_value :: "8 word \<Rightarrow> int" where
  "falloff_value x =
     (if uint x - S_RING_CHASE_FALLOF_RATE < 0 then 0 else uint x - S_RING_CHASE_FALLOF_RATE)"

definition falloff :: "CHSV \<Rightarrow> CHSV" where
  "falloff c = CHSV (hue c) (sat c) (word_of_int (falloff_value (val c)))"

definition ring_ops :: "CHSV list \<Rightarrow> led_op list" where
  "ring_ops rs =
     concat (map (\<lambda>i. map (\<lambda>j. SetHSV (GetStrip i + j) (rs ! nat i)) [0 .. NUM_STRIP_LEDS - 1])
                 [0 .. NUM_STRIPS - 1])"

definition S_RingChase_Update :: "S_RingChase \<Rightarrow> (S_RingChase \<times> led_op list) option" where
  "S_RingChase_Update s0 = do {
     s1 \<leftarrow> (if pulseTimer s0 \<le> 0 then do {
              let ci = (if pulseColorIndex s0 + 1 \<ge> S_RING_CHASE_NUM_PULSE_COLORS then 0
                        else pulseColorIndex s0 + 1);
              c \<leftarrow> rd S_RING_CHASE_COLORS ci;
              rs \<leftarrow> wr (rings s0) 0 c;
              Some (s0\<lparr>rings := rs, pulseTimer := S_RING_CHASE_PULSE_FREQUENCY,
                       pulseRingShiftTimer := S_RING_CHASE_RING_SHIFT_FREQUENCY,
                       pulseRingIndex := 1, pulseColorIndex := ci\<rparr>)
            } else Some s0);
     let s2 = s1\<lparr>pulseTimer := pulseTimer s1 - 1\<rparr>;
     s3 \<leftarrow> (if pulseRingShiftTimer s2 \<le> 0 \<and> pulseRingIndex s2 < NUM_STRIPS then do {
              c \<leftarrow> rd S_RING_CHASE_COLORS (pulseColorIndex s2);
              rs \<leftarrow> wr (rings s2) (pulseRingIndex s2) c;
              Some (s2\<lparr>rings := rs,
                       pulseRingShiftTimer := S_RING_CHASE_RING_SHIFT_FREQUENCY,
                       pulseRingIndex := pulseRingIndex s2 + 1\<rparr>)
            } else Some s2);
     let s4 = s3\<lparr>pulseRingShiftTimer := pulseRingShiftTimer s3 - 1\<rparr>;
     let s5 = s4\<lparr>rings := map falloff (rings s4)\<rparr>;
     Some (s5, ring_ops (rings s5))
   }"

section \<open>S_Twinkle\<close>

record S_Twinkle =
  twinkleTimer :: int

definition S_Twinkle_new :: S_Twinkle where
  "S_Twinkle_new = \<lparr>twinkleTimer = 0\<rparr>"

definition S_Twinkle_Init :: "S_Twinkle \<Rightarrow> S_Twinkle" where
  "S_Twinkle_Init s = s"

definition S_Twinkle_WrapUp :: "S_Twinkle \<Rightarrow> S_Twinkle" where
  "S_Twinkle_WrapUp s = s"

text \<open>Modelled from the spec: Arduino's \<^verbatim>\<open>random(howbig)\<close> and
  \<^verbatim>\<open>random(howsmall, howbig)\<close> are core-library code outside the repository; the spec
  says random selections are bounded by construction. The core computes
  \<^verbatim>\<open>random() % howbig\<close> (0 when \<^verbatim>\<open>howbig\<close> is 0) and
  \<^verbatim>\<open>random(howbig - howsmall) + howsmall\<close> (\<^verbatim>\<open>howsmall\<close> when the range is empty).
  The first argument \<open>raw\<close> is the non-negative value the underlying generator returns.\<close>
definition random_howbig :: "nat \<Rightarrow> int \<Rightarrow> int" where
  "random_howbig raw howbig = (if howbig = 0 then 0 else int raw mod \<bar>howbig\<bar>)"

definition random_range :: "nat \<Rightarrow> int \<Rightarrow> int \<Rightarrow> int" where
  "random_range raw howsmall howbig =
     (if howsmall \<ge> howbig then howsmall else random_howbig raw (howbig - howsmall) + howsmall)"

text \<open>The three values the generator returns to the three \<^verbatim>\<open>random\<close> calls of one
  \<^verbatim>\<open>Update\<close>, in call order.\<close>
type_synonym draws = "nat \<times> nat \<times> nat"

definition S_Twinkle_Update :: "draws \<Rightarrow> S_Twinkle \<Rightarrow> (S_Twinkle \<times> led_op list) option" where
  "S_Twinkle_Update d s0 = (case d of (r1, r2, r3) \<Rightarrow> do {
     (s1, ops1) \<leftarrow> (if twinkleTimer s0 \<le> 0 then do {
              let pos = random_range r1 1 (NUM_STRIPS * NUM_STRIP_LEDS - 2);
              let brightness = random_range r2 (255 - S_TWINKLE_BRIGHTNESS_VARIANCE) 255;
              color \<leftarrow> rd S_TWINKLE_COLORS (random_howbig r3 S_TWINKLE_NUM_COLORS);
              Some (s0\<lparr>twinkleTimer := S_TWINKLE_FREQUENCY\<rparr>,
                    [SetHSV pos (CHSV (hue color) (sat color) (word_of_int brightness))])
            } else Some (s0, []));
     let s2 = s1\<lparr>twinkleTimer := twinkleTimer s1 - 1\<rparr>;
     Some (s2, ops1 @ fade S_TWINKLE_FALLOFF_RATE)
   })"

section \<open>S_TraceChase\<close>

record S_TraceChase =
  traces :: "int list"
  traceColorIndex :: int

text \<open>The class has no constructor of its own: \<^verbatim>\<open>new S_TraceChase()\<close> zero-initialises
  \<^verbatim>\<open>traces\<close> and applies the member initialiser of \<^verbatim>\<open>traceColorIndex\<close>.\<close>
definition S_TraceChase_new :: S_TraceChase where
  "S_TraceChase_new = \<lparr>traces = map (\<lambda>i. 0) [0 .. NUM_STRIPS - 1], traceColorIndex = 0\<rparr>"

definition S_TraceChase_Init :: "S_TraceChase \<Rightarrow> S_TraceChase" where
  "S_TraceChase_Init s =
     s\<lparr>traces :=
         fold (\<lambda>i ts. if ZIG_ZAG
                       then (if i mod 2 = 1 then ts[nat i := NUM_STRIP_LEDS - i * S_TRACE_OFFSET]
                             else ts[nat i := i * S_TRACE_OFFSET])
                       else ts[nat i := i * S_TRACE_OFFSET])
              [1 .. NUM_STRIPS - 1] ((traces s)[0 := 0])\<rparr>"

definition S_TraceChase_WrapUp :: "S_TraceChase \<Rightarrow> S_TraceChase" where
  "S_TraceChase_WrapUp s = s"

text \<open>The loop over \<open>j\<close> of an odd strip under \<^verbatim>\<open>ZIG_ZAG\<close>; the first argument counts the
  iterations left.\<close>
fun trace_backward :: "nat \<Rightarrow> int \<Rightarrow> S_TraceChase \<Rightarrow> (S_TraceChase \<times> led_op list) option" where
  "trace_backward 0 i s = Some (s, [])"
| "trace_backward (Suc n) i s = do {
     t \<leftarrow> rd (traces s) i;
     let t1 = t - 1;
     let t2 = (if t1 < 0 then NUM_STRIP_LEDS - 1 else t1);
     ts \<leftarrow> wr (traces s) i t2;
     c \<leftarrow> rd S_TRACE_CHASE_COLORS (traceColorIndex s);
     (s', ops) \<leftarrow> trace_backward n i (s\<lparr>traces := ts\<rparr>);
     Some (s', SetHSV (GetStrip i + t2) c # ops)
   }"

text \<open>The loop over \<open>j\<close> of an even strip, and of every strip without \<^verbatim>\<open>ZIG_ZAG\<close>.\<close>
fun trace_forward :: "nat \<Rightarrow> int \<Rightarrow> S_TraceChase \<Rightarrow> (S_TraceChase \<times> led_op list) option" where
  "trace_forward 0 i s = Some (s, [])"
| "trace_forward (Suc n) i s = do {
     t \<leftarrow> rd (traces s) i;
     let t1 = t + 1;
     let t2 = (if t1 > NUM_STRIP_LEDS - 1 then 0 else t1);
     ts \<leftarrow> wr (traces s) i t2;
     c \<leftarrow> rd S_TRACE_CHASE_COLORS (traceColorIndex s);
     (s', ops) \<leftarrow> trace_forward n i (s\<lparr>traces := ts\<rparr>);
     Some (s', SetHSV (GetStrip i + t2) c # ops)
   }"

text \<open>The loop over the strips: the strip's trace is advanced, then the colour index.\<close>
fun trace_strips :: "int list \<Rightarrow> S_TraceChase \<Rightarrow> (S_TraceChase \<times> led_op list) option" where
  "trace_strips [] s = Some (s, [])"
| "trace_strips (i # rest) s = do {
     (s1, ops1) \<leftarrow> (if ZIG_ZAG
                     then (if i mod 2 = 1 then trace_backward (nat S_TRACE_SPEED) i s
                           else trace_forward (nat S_TRACE_SPEED) i s)
                     else trace_forward (nat S_TRACE_SPEED) i s);
     let ci = traceColorIndex s1 + 1;
     let s2 = s1\<lparr>traceColorIndex := (if ci > S_TRACE_CHASE_NUM_COLORS - 1 then 0 else ci)\<rparr>;
     (s3, ops3) \<leftarrow> trace_strips rest s2;
     Some (s3, ops1 @ ops3)
   }"

definition S_TraceChase_Update :: "S_TraceChase \<Rightarrow> (S_TraceChase \<times> led_op list) option" where
  "S_TraceChase_Update s = do {
     (s1, ops) \<leftarrow> trace_strips [0 .. NUM_STRIPS - 1] s;
     Some (s1\<lparr>traceColorIndex := 0\<rparr>, ops @ fade S_TRACE_FALLOFF_RATE)
   }"

section \<open>The scheduler\<close>

record engine =
  sequenceTimer :: int
  ledSequence :: int
  ringChase :: S_RingChase
  twinkle :: S_Twinkle
  traceChase :: S_TraceChase
  leds :: "CRGB list"

datatype hook = Init | WrapUp | Update

text \<open>The virtual calls \<^verbatim>\<open>Sequences[ledSequence]->Init()\<close>, \<^verbatim>\<open>->WrapUp()\<close> and
  \<^verbatim>\<open>->Update()\<close>; the registry holds RingChase, Twinkle and TraceChase, in this order.\<close>
definition call_Init :: "engine \<Rightarrow> engine option" where
  "call_Init e =
     (if ledSequence e = 0 then Some (e\<lparr>ringChase := S_RingChase_Init (ringChase e)\<rparr>)
      else if ledSequence e = 1 then Some (e\<lparr>twinkle := S_Twinkle_Init (twinkle e)\<rparr>)
      else if ledSequence e = 2 then Some (e\<lparr>traceChase := S_TraceChase_Init (traceChase e)\<rparr>)
      else None)"

definition call_WrapUp :: "engine \<Rightarrow> engine option" where
  "call_WrapUp e =
     (if ledSequence e = 0 then Some (e\<lparr>ringChase := S_RingChase_WrapUp (ringChase e)\<rparr>)
      else if ledSequence e = 1 then Some (e\<lparr>twinkle := S_Twinkle_WrapUp (twinkle e)\<rparr>)
      else if ledSequence e = 2 then Some (e\<lparr>traceChase := S_TraceChase_WrapUp (traceChase e)\<rparr>)
      else None)"

definition call_Update :: "(CHSV \<Rightarrow> CRGB) \<Rightarrow> draws \<Rightarrow> engine \<Rightarrow> engine option" where
  "call_Update cv d e =
     (if ledSequence e = 0 then do {
        (s, ops) \<leftarrow> S_RingChase_Update (ringChase e);
        l \<leftarrow> exec_ops cv ops (leds e);
        Some (e\<lparr>ringChase := s, leds := l\<rparr>) }
      else if ledSequence e = 1 then do {
        (s, ops) \<leftarrow> S_Twinkle_Update d (twinkle e);
        l \<leftarrow> exec_ops cv ops (leds e);
        Some (e\<lparr>twinkle := s, leds := l\<rparr>) }
      else if ledSequence e = 2 then do {
        (s, ops) \<leftarrow> S_TraceChase_Update (traceChase e);
        l \<leftarrow> exec_ops cv ops (leds e);
        Some (e\<lparr>traceChase := s, leds := l\<rparr>) }
      else None)"

text \<open>The state after \<^verbatim>\<open>setup()\<close>: the three sequences constructed, the buffer cleared,
  \<^verbatim>\<open>Init\<close> invoked on sequence 0.\<close>
definition setup_engine :: "CHSV \<Rightarrow> engine" where
  "setup_engine past_end =
     \<lparr>sequenceTimer = SEQUENCE_DURATION, ledSequence = 0,
      ringChase = S_RingChase_Init (S_RingChase_new past_end),
      twinkle = S_Twinkle_new, traceChase = S_TraceChase_new,
      leds = map (\<lambda>i. CRGB 0 0 0) [0 .. NUM_STRIP_LEDS * NUM_STRIPS - 1]\<rparr>"

text \<open>One pass of \<^verbatim>\<open>loop()\<close>. Besides the new state it returns the virtual calls it made, in
  order, each with the index of the sequence it was dispatched to. The final
  \<^verbatim>\<open>FastLED.show()\<close> transmits the buffer and changes no state.\<close>
definition loop :: "(CHSV \<Rightarrow> CRGB) \<Rightarrow> draws \<Rightarrow> engine \<Rightarrow> (engine \<times> (int \<times> hook) list) option" where
  "loop cv d e0 = do {
     let e1 = e0\<lparr>sequenceTimer := sequenceTimer e0 - 1\<rparr>;
     (e2, calls2) \<leftarrow> (if sequenceTimer e1 = WRAPUP_WARNING_OFFSET
                       then do { e \<leftarrow> call_WrapUp e1; Some (e, [(ledSequence e1, WrapUp)]) }
                       else Some (e1, []));
     (e3, calls3) \<leftarrow> (if sequenceTimer e2 < 0
                       then do {
                         let n = ledSequence e2 + 1;
                         let e = e2\<lparr>ledSequence := (if n > NUM_SEQUENCES - 1 then 0 else n)\<rparr>;
                         e' \<leftarrow> call_Init e;
                         Some (e'\<lparr>sequenceTimer := SEQUENCE_DURATION\<rparr>, [(ledSequence e, Init)]) }
                       else Some (e2, []));
     e4 \<leftarrow> call_Update cv d e3;
     Some (e4, calls2 @ calls3 @ [(ledSequence e3, Update)])
   }"

text \<open>Running the main loop for one tick per element of the list of draws; the result
  holds the calls of each tick.\<close>
fun run :: "(CHSV \<Rightarrow> CRGB) \<Rightarrow> draws list \<Rightarrow> engine \<Rightarrow> (engine \<times> (int \<times> hook) list list) option" where
  "run cv [] e = Some (e, [])"
| "run cv (d # ds) e = do {
     (e', calls) \<leftarrow> loop cv d e;
     (e'', later) \<leftarrow> run cv ds e';
     Some (e'', calls # later)
   }"

section \<open>Invariants, iterated updates and reachable states\<close>

text \<open>The definitions of this section are not part of the sketch: they state what the
  theorems below are about.\<close>

text \<open>A well-formed RingChase state: eight rings, indices in range, and the colour index is
  at the palette length only while a pulse is due (as after the constructor and \<open>Init\<close>).\<close>
definition ring_ok :: "S_RingChase \<Rightarrow> bool" where
  "ring_ok s \<longleftrightarrow> length (rings s) = 8 \<and> 0 \<le> pulseRingIndex s \<and> 0 \<le> pulseColorIndex s
     \<and> pulseColorIndex s \<le> 3 \<and> (pulseColorIndex s < 3 \<or> pulseTimer s \<le> 0)"

text \<open>\<open>n\<close> consecutive calls of \<open>S_RingChase::Update\<close>, keeping the private state only.\<close>
fun ring_updates :: "nat \<Rightarrow> S_RingChase \<Rightarrow> S_RingChase option" where
  "ring_updates 0 s = Some s"
| "ring_updates (Suc n) s = do { (s', ops) \<leftarrow> S_RingChase_Update s; ring_updates n s' }"

text \<open>A well-formed TraceChase state between two calls: eight positions, each inside its
  strip, and the colour index back at 0.\<close>
definition trace_ok :: "S_TraceChase \<Rightarrow> bool" where
  "trace_ok s \<longleftrightarrow> length (traces s) = 8 \<and> (\<forall>t \<in> set (traces s). 0 \<le> t \<and> t < 150)
     \<and> traceColorIndex s = 0"

text \<open>\<open>n\<close> consecutive calls of \<open>S_TraceChase::Update\<close>, keeping the private state only.\<close>
fun trace_updates :: "nat \<Rightarrow> S_TraceChase \<Rightarrow> S_TraceChase option" where
  "trace_updates 0 s = Some s"
| "trace_updates (Suc n) s = do { (s', ops) \<leftarrow> S_TraceChase_Update s; trace_updates n s' }"

text \<open>The TraceChase states that any history of calls produces from a new instance.\<close>
inductive trace_reachable :: "S_TraceChase \<Rightarrow> bool" where
  fresh: "trace_reachable S_TraceChase_new"
| init: "trace_reachable s \<Longrightarrow> trace_reachable (S_TraceChase_Init s)"
| wrapup: "trace_reachable s \<Longrightarrow> trace_reachable (S_TraceChase_WrapUp s)"
| update: "trace_reachable s \<Longrightarrow> S_TraceChase_Update s = Some (s', ops) \<Longrightarrow> trace_reachable s'"

text \<open>The invariant of the main loop. Between two ticks the RingChase colour index is inside
  the palette, except in the state \<open>setup\<close> leaves.\<close>
definition engine_mid :: "engine \<Rightarrow> bool" where
  "engine_mid e \<longleftrightarrow> 0 \<le> ledSequence e \<and> ledSequence e < 3 \<and> length (leds e) = 1200
     \<and> ring_ok (ringChase e) \<and> trace_ok (traceChase e)"

definition engine_ok :: "engine \<Rightarrow> bool" where
  "engine_ok e \<longleftrightarrow> engine_mid e
     \<and> (pulseColorIndex (ringChase e) < 3 \<or> sequenceTimer e = 300 \<and> ledSequence e = 0)"

text \<open>The calls expected of the tick that follows \<open>n\<close> completed ticks: a cycle has 301 ticks;
  its 280th tick calls \<open>WrapUp\<close>, its last tick rotates and calls \<open>Init\<close>.\<close>
definition tick_calls :: "nat \<Rightarrow> (int \<times> hook) list" where
  "tick_calls n =
     (let c = n div 301; k = n mod 301 in
      if k = 300 then [(int (Suc c mod 3), Init), (int (Suc c mod 3), Update)]
      else if k = 279 then [(int (c mod 3), WrapUp), (int (c mod 3), Update)]
      else [(int (c mod 3), Update)])"

section \<open>Basic facts\<close>

lemma upto8: "[0 .. (7::int)] = [0,1,2,3,4,5,6,7]"
  by (simp add: upto_rec1)

lemma upto13: "[1 .. (3::int)] = [1,2,3]"
  by (simp add: upto_rec1)

lemma len8: "length xs = 8 \<Longrightarrow> \<exists>a b c d e f g h. xs = [a,b,c,d,e,f,g,h]"
  by (auto simp: length_Suc_conv numeral_eq_Suc)

lemma less8: "i < 8 \<Longrightarrow> i = 0 \<or> i = 1 \<or> i = 2 \<or> i = 3 \<or> i = 4 \<or> i = 5 \<or> i = 6 \<or> i = (7::nat)"
  by arith

section \<open>Buffer operations\<close>

lemma exec_op_ok:
  assumes "0 \<le> op_index op" "op_index op < int (length l)"
  shows "\<exists>l'. exec_op cv op l = Some l' \<and> length l' = length l"
  using assms by (cases op) (auto simp: rd_def wr_def)

lemma exec_ops_ok:
  assumes "\<forall>op \<in> set ops. 0 \<le> op_index op \<and> op_index op < int (length l)"
  shows "\<exists>l'. exec_ops cv ops l = Some l' \<and> length l' = length l"
  using assms
proof (induction ops arbitrary: l)
  case Nil
  then show ?case by simp
next
  case (Cons op ops)
  then obtain l1 where l1: "exec_op cv op l = Some l1" "length l1 = length l"
    using exec_op_ok [of op l cv] by auto
  with Cons.prems have "\<forall>op \<in> set ops. 0 \<le> op_index op \<and> op_index op < int (length l1)"
    by simp
  from Cons.IH [OF this] l1 show ?case by simp
qed

lemma exec_op_Some:
  assumes "exec_op cv op l = Some l'"
  shows "0 \<le> op_index op \<and> op_index op < int (length l) \<and> length l' = length l"
  using assms by (cases op) (auto simp: rd_def wr_def split: if_splits Option.bind_splits)

lemma exec_ops_Some:
  assumes "exec_ops cv ops l = Some l'"
  shows "(\<forall>op \<in> set ops. 0 \<le> op_index op \<and> op_index op < int (length l)) \<and> length l' = length l"
  using assms
proof (induction ops arbitrary: l)
  case Nil
  then show ?case by simp
next
  case (Cons op ops)
  then obtain l1 where l1: "exec_op cv op l = Some l1" "exec_ops cv ops l1 = Some l'"
    by (auto split: Option.bind_splits)
  from exec_op_Some [OF l1(1)] Cons.IH [OF l1(2)] show ?case by simp
qed

lemma fade_range:
  assumes "op \<in> set (fade rate)"
  shows "0 \<le> op_index op \<and> op_index op < 1200 \<and> (\<exists>i. op = Nscale8 i (word_of_int (255 - rate)))"
  using assms by (auto simp: fade_def NUM_STRIPS_def NUM_STRIP_LEDS_def)

lemma scale_div_le:
  fixes a b :: nat
  assumes "b < 256"
  shows "(a * (b + 1)) div 256 \<le> a"
proof -
  from assms have "b + 1 \<le> 256" by simp
  then have "a * (b + 1) \<le> a * 256" by (rule mult_le_mono2)
  then have "(a * (b + 1)) div 256 \<le> (a * 256) div 256" by (rule div_le_mono)
  then show ?thesis by simp
qed

lemma scale8_le: "unat (scale8 x sc) \<le> unat x"
proof -
  have "unat sc < 2 ^ LENGTH(8)" by (rule unsigned_less)
  then have le: "(unat x * (unat sc + 1)) div 256 \<le> unat x"
    using scale_div_le [of "unat sc" "unat x"] by simp
  have "unat x < 2 ^ LENGTH(8)" by (rule unsigned_less)
  with le have "(unat x * (unat sc + 1)) div 256 < 2 ^ LENGTH(8)" by linarith
  then have "unat (word_of_nat ((unat x * (unat sc + 1)) div 256) :: 8 word)
      = (unat x * (unat sc + 1)) div 256"
    by (simp only: unat_of_nat mod_less)
  with le show ?thesis by (simp only: scale8_def)
qed

lemma nscale8_le:
  "unat (red (nscale8 px sc)) \<le> unat (red px) \<and> unat (green (nscale8 px sc)) \<le> unat (green px)
   \<and> unat (blue (nscale8 px sc)) \<le> unat (blue px)"
  by (simp add: nscale8_def scale8_le)

lemma exec_Nscale8:
  assumes "exec_op cv (Nscale8 i sc) l = Some l'"
  shows "length l' = length l
    \<and> (\<forall>j < length l. unat (red (l' ! j)) \<le> unat (red (l ! j))
          \<and> unat (green (l' ! j)) \<le> unat (green (l ! j))
          \<and> unat (blue (l' ! j)) \<le> unat (blue (l ! j)))"
proof -
  from assms have i: "0 \<le> i" "i < int (length l)" and l': "l' = l[nat i := nscale8 (l ! nat i) sc]"
    by (auto simp: rd_def wr_def split: if_splits)
  have "\<And>j. j < length l \<Longrightarrow> unat (red (l' ! j)) \<le> unat (red (l ! j))
          \<and> unat (green (l' ! j)) \<le> unat (green (l ! j))
          \<and> unat (blue (l' ! j)) \<le> unat (blue (l ! j))"
  proof -
    fix j assume "j < length l"
    show "unat (red (l' ! j)) \<le> unat (red (l ! j))
          \<and> unat (green (l' ! j)) \<le> unat (green (l ! j))
          \<and> unat (blue (l' ! j)) \<le> unat (blue (l ! j))"
    proof (cases "j = nat i")
      case True
      with \<open>j < length l\<close> show ?thesis
        using nscale8_le [of "l ! nat i" sc] by (simp add: l')
    next
      case False
      then show ?thesis by (simp add: l')
    qed
  qed
  then show ?thesis by (simp add: l')
qed

section \<open>RingChase: one update, pulse propagation\<close>

lemma falloff_value_eq: "falloff_value x = max 0 (uint x - 8)"
  by (simp add: falloff_value_def S_RING_CHASE_FALLOF_RATE_def max_def)

lemma falloff_value_range: "0 \<le> falloff_value x \<and> falloff_value x \<le> 247"
proof -
  have "uint x < 256" using uint_bounded [of x] by simp
  then show ?thesis by (simp add: falloff_value_eq max_def)
qed

lemma uint_falloff: "uint (val (falloff c)) = falloff_value (val c)"
proof -
  have "0 \<le> falloff_value (val c)" "falloff_value (val c) < 2 ^ 8"
    using falloff_value_range [of "val c"] by simp_all
  then have "uint (word_of_int (falloff_value (val c)) :: 8 word) = falloff_value (val c)"
    by (simp add: uint_word_of_int take_bit_int_eq_self)
  then show ?thesis by (simp add: falloff_def)
qed

lemma ring_update_ok:
  assumes "ring_ok s"
  shows "\<exists>s'. S_RingChase_Update s = Some (s', ring_ops (rings s')) \<and> ring_ok s'
     \<and> pulseColorIndex s' < 3
     \<and> (\<forall>c \<in> set (rings s'). uint (val c) \<le> 247)"
proof -
  from assms have l: "length (rings s) = 8" and i: "0 \<le> pulseRingIndex s"
    and c: "0 \<le> pulseColorIndex s" "pulseColorIndex s \<le> 3"
    and d: "pulseColorIndex s < 3 \<or> pulseTimer s \<le> 0"
    by (simp_all add: ring_ok_def)
  have fo: "\<And>rs. \<forall>c \<in> set (map falloff rs). uint (val c) \<le> 247"
    using falloff_value_range by (auto simp: uint_falloff)
  show ?thesis
  proof (cases "pulseTimer s \<le> 0")
    case True
    then show ?thesis using l i c fo
      by (auto simp: S_RingChase_Update_def ring_ok_def rd_def wr_def Let_def config)
  next
    case False
    with d have "pulseColorIndex s < 3" by simp
    then show ?thesis using False l i c fo
      by (auto simp: S_RingChase_Update_def ring_ok_def rd_def wr_def Let_def config)
  qed
qed

lemma ring_ops_range:
  assumes "op \<in> set (ring_ops rs)"
  shows "0 \<le> op_index op \<and> op_index op < 1200 \<and> (\<exists>i c. op = SetHSV i c \<and> (\<exists>k<8. c = rs ! k))"
proof -
  from assms obtain i j where "0 \<le> i" "i \<le> 7" "0 \<le> j" "j \<le> 149"
    and op: "op = SetHSV (GetStrip i + j) (rs ! nat i)"
    by (auto simp: ring_ops_def NUM_STRIPS_def NUM_STRIP_LEDS_def)
  then show ?thesis
    by (auto simp: GetStrip_def NUM_STRIP_LEDS_def intro!: exI [of _ "nat i"])
qed

lemma ring_ops_mem:
  assumes "0 \<le> i" "i \<le> 7" "0 \<le> j" "j \<le> 149"
  shows "SetHSV (GetStrip i + j) (rs ! nat i) \<in> set (ring_ops rs)"
proof -
  have "SetHSV (GetStrip i + j) (rs ! nat i)
      \<in> (\<lambda>xa. SetHSV (GetStrip i + xa) (rs ! nat i)) ` {0..149}"
    using assms by (intro imageI) simp
  with assms show ?thesis
    by (auto simp: ring_ops_def NUM_STRIPS_def NUM_STRIP_LEDS_def intro!: bexI [of _ i])
qed

lemma ring_record: "(s :: S_RingChase) = \<lparr>rings = rings s, pulseTimer = pulseTimer s,
    pulseRingShiftTimer = pulseRingShiftTimer s, pulseRingIndex = pulseRingIndex s,
    pulseColorIndex = pulseColorIndex s\<rparr>"
  by simp

lemma ring_step:
  assumes "length rs = 8" "0 \<le> ci" "ci < 3" "0 \<le> ix" "0 < pt"
  shows "S_RingChase_Update \<lparr>rings = rs, pulseTimer = pt, pulseRingShiftTimer = st,
            pulseRingIndex = ix, pulseColorIndex = ci\<rparr> =
    (let s' = (if st \<le> 0 \<and> ix < 8
               then \<lparr>rings = map falloff (rs[nat ix := S_RING_CHASE_COLORS ! nat ci]),
                     pulseTimer = pt - 1, pulseRingShiftTimer = 1,
                     pulseRingIndex = ix + 1, pulseColorIndex = ci\<rparr>
               else \<lparr>rings = map falloff rs, pulseTimer = pt - 1, pulseRingShiftTimer = st - 1,
                     pulseRingIndex = ix, pulseColorIndex = ci\<rparr>)
     in Some (s', ring_ops (rings s')))"
  using assms
  by (simp add: S_RingChase_Update_def rd_def wr_def Let_def NUM_STRIPS_def
      S_RING_CHASE_RING_SHIFT_FREQUENCY_def S_RING_CHASE_COLORS_def)

lemma ring_pulse:
  assumes "length rs = 8" "- 1 \<le> ci" "ci \<le> 3" "pt \<le> 0"
  shows "S_RingChase_Update \<lparr>rings = rs, pulseTimer = pt, pulseRingShiftTimer = st,
            pulseRingIndex = ix, pulseColorIndex = ci\<rparr> =
    (let c = (if ci + 1 \<ge> 3 then 0 else ci + 1);
         s' = \<lparr>rings = map falloff (rs[0 := S_RING_CHASE_COLORS ! nat c]),
                     pulseTimer = 44, pulseRingShiftTimer = 1,
                     pulseRingIndex = 1, pulseColorIndex = c\<rparr>
     in Some (s', ring_ops (rings s')))"
  using assms
  by (simp add: S_RingChase_Update_def rd_def wr_def Let_def NUM_STRIPS_def
      S_RING_CHASE_RING_SHIFT_FREQUENCY_def S_RING_CHASE_COLORS_def
      S_RING_CHASE_PULSE_FREQUENCY_def S_RING_CHASE_NUM_PULSE_COLORS_def)

lemma ring_updates_numeral:
  "ring_updates (numeral n) s = do { (s', ops) \<leftarrow> S_RingChase_Update s; ring_updates (pred_numeral n) s' }"
  by (simp add: numeral_eq_Suc)

lemma falloff_numeral: "falloff (CHSV a b (numeral n)) =
    CHSV a b (word_of_int (if uint (numeral n :: 8 word) - 8 < 0 then 0 else uint (numeral n :: 8 word) - 8))"
  by (simp add: falloff_def falloff_value_def S_RING_CHASE_FALLOF_RATE_def)

lemma ring_updates_14:
  assumes "0 \<le> c" "c < 3" "S_RING_CHASE_COLORS ! nat c = CHSV hh 255 255"
  shows "ring_updates 14 \<lparr>rings = map falloff ([r0, r1, r2, r3, r4, r5, r6, r7][0 := S_RING_CHASE_COLORS ! nat c]),
                     pulseTimer = 44, pulseRingShiftTimer = 1,
                     pulseRingIndex = 1, pulseColorIndex = c\<rparr>
     = Some \<lparr>rings =
           [CHSV hh 255 135, CHSV hh 255 151, CHSV hh 255 167,
            CHSV hh 255 183, CHSV hh 255 199, CHSV hh 255 215,
            CHSV hh 255 231, CHSV hh 255 247],
           pulseTimer = 30, pulseRingShiftTimer = 1, pulseRingIndex = 8,
           pulseColorIndex = c\<rparr>"
  using assms
  by (simp add: ring_updates_numeral ring_step Let_def falloff_numeral)

lemma falloff_14: "(falloff ^^ 14) x = falloff (falloff (falloff (falloff (falloff (falloff (falloff
     (falloff (falloff (falloff (falloff (falloff (falloff (falloff x)))))))))))))"
  by (simp add: eval_nat_numeral)

lemma ring_updates_13:
  assumes "0 \<le> c" "c < 3" "S_RING_CHASE_COLORS ! nat c = CHSV hh 255 255"
  shows "ring_updates 13 \<lparr>rings = map falloff ([r0, r1, r2, r3, r4, r5, r6, r7][0 := S_RING_CHASE_COLORS ! nat c]),
                     pulseTimer = 44, pulseRingShiftTimer = 1,
                     pulseRingIndex = 1, pulseColorIndex = c\<rparr>
     = Some \<lparr>rings =
           [CHSV hh 255 143, CHSV hh 255 159, CHSV hh 255 175,
            CHSV hh 255 191, CHSV hh 255 207, CHSV hh 255 223,
            CHSV hh 255 239, (falloff ^^ 14) r7],
           pulseTimer = 31, pulseRingShiftTimer = 0, pulseRingIndex = 7,
           pulseColorIndex = c\<rparr>"
  using assms
  by (simp add: ring_updates_numeral ring_step Let_def falloff_numeral falloff_14)

lemma palette_entry:
  assumes "0 \<le> c" "c < 3"
  shows "S_RING_CHASE_COLORS ! nat c = CHSV (hue (S_RING_CHASE_COLORS ! nat c)) 255 255"
proof -
  from assms consider "c = 0" | "c = 1" | "c = 2" by linarith
  then show ?thesis by cases (simp_all add: S_RING_CHASE_COLORS_def)
qed

lemma ring_no_pulse:
  assumes "ring_ok s" "0 < pulseTimer s"
  shows "\<exists>s'. S_RingChase_Update s = Some (s', ring_ops (rings s')) \<and> ring_ok s'
     \<and> pulseTimer s' = pulseTimer s - 1 \<and> pulseColorIndex s' = pulseColorIndex s"
proof -
  from assms have a: "length (rings s) = 8" "0 \<le> pulseColorIndex s" "pulseColorIndex s < 3"
    "0 \<le> pulseRingIndex s"
    by (auto simp: ring_ok_def)
  show ?thesis
    by (subst ring_record [of s], subst ring_step [OF a assms(2)])
       (use a in \<open>auto simp: Let_def ring_ok_def\<close>)
qed

lemma ring_countdown:
  assumes "ring_ok s" "int n \<le> pulseTimer s"
  shows "\<exists>s'. ring_updates n s = Some s' \<and> ring_ok s'
     \<and> pulseTimer s' = pulseTimer s - int n \<and> pulseColorIndex s' = pulseColorIndex s"
  using assms
proof (induction n arbitrary: s)
  case 0
  then show ?case by simp
next
  case (Suc n)
  then have "0 < pulseTimer s" by simp
  from ring_no_pulse [OF Suc.prems(1) this] obtain s1 where
    s1: "S_RingChase_Update s = Some (s1, ring_ops (rings s1))" "ring_ok s1"
      "pulseTimer s1 = pulseTimer s - 1" "pulseColorIndex s1 = pulseColorIndex s" by blast
  with Suc.prems have "int n \<le> pulseTimer s1" by simp
  from Suc.IH [OF s1(2) this] s1 show ?case by auto
qed

lemma ring_updates_add:
  "ring_updates (m + n) s = do { s' \<leftarrow> ring_updates m s; ring_updates n s' }"
  by (induction m arbitrary: s) (auto split: Option.bind_splits)

lemma ring_pulse_cycle:
  assumes "ring_ok s" "pulseTimer s \<le> 0"
  shows "\<exists>s'. ring_updates 45 s = Some s' \<and> ring_ok s' \<and> pulseTimer s' = 0
     \<and> pulseColorIndex s' = (if pulseColorIndex s + 1 \<ge> 3 then 0 else pulseColorIndex s + 1)"
proof -
  from assms have a: "length (rings s) = 8" "- 1 \<le> pulseColorIndex s" "pulseColorIndex s \<le> 3"
    by (auto simp: ring_ok_def)
  define s1 where "s1 = \<lparr>rings = map falloff ((rings s)[0 := S_RING_CHASE_COLORS !
         nat (if pulseColorIndex s + 1 \<ge> 3 then 0 else pulseColorIndex s + 1)]),
       pulseTimer = 44, pulseRingShiftTimer = 1, pulseRingIndex = 1,
       pulseColorIndex = (if pulseColorIndex s + 1 \<ge> 3 then 0 else pulseColorIndex s + 1)\<rparr>"
  have u: "S_RingChase_Update s = Some (s1, ring_ops (rings s1))"
    by (subst ring_record [of s], subst ring_pulse [OF a assms(2)])
       (simp add: Let_def s1_def)
  have ok1: "ring_ok s1" using a by (auto simp: ring_ok_def s1_def)
  have "int 44 \<le> pulseTimer s1" by (simp add: s1_def)
  from ring_countdown [OF ok1 this] obtain s' where
    "ring_updates 44 s1 = Some s'" "ring_ok s'" "pulseTimer s' = pulseTimer s1 - int 44"
    "pulseColorIndex s' = pulseColorIndex s1" by blast
  moreover have "ring_updates 45 s = ring_updates 44 s1"
    using u by (simp add: ring_updates_numeral)
  ultimately show ?thesis by (simp add: s1_def)
qed

section \<open>Twinkle: the random draws\<close>

lemma random_range_bounds:
  assumes "lo < hi"
  shows "lo \<le> random_range r lo hi \<and> random_range r lo hi \<le> hi - 1"
proof -
  from assms have "0 < hi - lo" by simp
  then have "0 \<le> int r mod \<bar>hi - lo\<bar>" "int r mod \<bar>hi - lo\<bar> < hi - lo"
    by simp_all
  with assms show ?thesis by (simp add: random_range_def random_howbig_def)
qed

lemma twinkle_update:
  "S_Twinkle_Update (r1, r2, r3) s =
     Some (if twinkleTimer s \<le> 0
           then (s\<lparr>twinkleTimer := 1\<rparr>,
                 SetHSV (1 + int r1 mod 1197) (CHSV 190 255 (word_of_int (155 + int r2 mod 100)))
                   # fade S_TWINKLE_FALLOFF_RATE)
           else (s\<lparr>twinkleTimer := twinkleTimer s - 1\<rparr>, fade S_TWINKLE_FALLOFF_RATE))"
  by (simp add: S_Twinkle_Update_def random_range_def random_howbig_def rd_def Let_def
      NUM_STRIPS_def NUM_STRIP_LEDS_def S_TWINKLE_NUM_COLORS_def S_TWINKLE_COLORS_def
      S_TWINKLE_FREQUENCY_def S_TWINKLE_BRIGHTNESS_VARIANCE_def)

lemma twinkle_ops_range:
  assumes "S_Twinkle_Update d s = Some (s', ops)" "op \<in> set ops"
  shows "0 \<le> op_index op \<and> op_index op < 1200"
proof -
  obtain r1 r2 r3 where d: "d = (r1, r2, r3)" by (cases d) auto
  have "0 \<le> int r1 mod 1197" "int r1 mod 1197 < 1197" by simp_all
  then have "0 \<le> 1 + int r1 mod 1197 \<and> 1 + int r1 mod 1197 < 1200" by linarith
  with assms show ?thesis
    unfolding d twinkle_update
    by (auto split: if_splits dest: fade_range)
qed

lemma twinkle_ops_shape:
  "\<exists>t' ops. S_Twinkle_Update d t = Some (t', ops)
     \<and> (\<forall>op \<in> set ops. (\<exists>i. op = Nscale8 i 245)
           \<or> (\<exists>i b. op = SetHSV i (CHSV 190 255 b) \<and> 155 \<le> uint b \<and> uint b \<le> 254))"
proof -
  obtain r1 r2 r3 where d: "d = (r1, r2, r3)" by (cases d) auto
  have q: "0 \<le> int r2 mod 100" "int r2 mod 100 < 100" by simp_all
  have "uint (word_of_int (155 + int r2 mod 100) :: 8 word)
      = (155 + int r2 mod 100) mod 2 ^ LENGTH(8)"
    by (rule uint_word_of_int)
  also have "\<dots> = 155 + int r2 mod 100" using q by simp
  finally have u: "uint (word_of_int (155 + int r2 mod 100) :: 8 word) = 155 + int r2 mod 100" .
  have b: "155 \<le> uint (word_of_int (155 + int r2 mod 100) :: 8 word)
      \<and> uint (word_of_int (155 + int r2 mod 100) :: 8 word) \<le> 254"
    unfolding u using q by linarith
  have f: "\<forall>op \<in> set (fade S_TWINKLE_FALLOFF_RATE). \<exists>i. op = Nscale8 i 245"
    using fade_range [of _ S_TWINKLE_FALLOFF_RATE] by (auto simp: S_TWINKLE_FALLOFF_RATE_def)
  show ?thesis
  proof (cases "twinkleTimer t \<le> 0")
    case True
    have "\<forall>op \<in> set (SetHSV (1 + int r1 mod 1197)
                (CHSV 190 255 (word_of_int (155 + int r2 mod 100))) # fade S_TWINKLE_FALLOFF_RATE).
            (\<exists>i. op = Nscale8 i 245)
           \<or> (\<exists>i b. op = SetHSV i (CHSV 190 255 b) \<and> 155 \<le> uint b \<and> uint b \<le> 254)"
      using f b by (simp del: of_int_add)
    with True show ?thesis unfolding d twinkle_update by (simp del: of_int_add)
  next
    case False
    with f show ?thesis unfolding d twinkle_update by auto
  qed
qed

section \<open>TraceChase: one update in closed form\<close>

lemma trace_forward_Suc:
  assumes "0 \<le> i" "i < int (length (traces s))" "0 \<le> traces s ! nat i" "traces s ! nat i < 150"
    "0 \<le> traceColorIndex s" "traceColorIndex s < 3"
  shows "trace_forward (Suc n) i s =
     (case trace_forward n i (s\<lparr>traces := (traces s)[nat i := (traces s ! nat i + 1) mod 150]\<rparr>) of
        None \<Rightarrow> None
      | Some (s', ops) \<Rightarrow>
          Some (s', SetHSV (GetStrip i + (traces s ! nat i + 1) mod 150)
                      (S_TRACE_CHASE_COLORS ! nat (traceColorIndex s)) # ops))"
proof (cases "traces s ! nat i = 149")
  case True
  then show ?thesis using assms
    by (simp add: rd_def wr_def NUM_STRIP_LEDS_def S_TRACE_CHASE_COLORS_def Let_def
        split: option.splits)
next
  case False
  then have "(traces s ! nat i + 1) mod 150 = traces s ! nat i + 1"
    using assms by simp
  then show ?thesis using assms False
    by (simp add: rd_def wr_def NUM_STRIP_LEDS_def S_TRACE_CHASE_COLORS_def Let_def
        split: option.splits)
qed

lemma trace_backward_Suc:
  assumes "0 \<le> i" "i < int (length (traces s))" "0 \<le> traces s ! nat i" "traces s ! nat i < 150"
    "0 \<le> traceColorIndex s" "traceColorIndex s < 3"
  shows "trace_backward (Suc n) i s =
     (case trace_backward n i (s\<lparr>traces := (traces s)[nat i := (traces s ! nat i - 1) mod 150]\<rparr>) of
        None \<Rightarrow> None
      | Some (s', ops) \<Rightarrow>
          Some (s', SetHSV (GetStrip i + (traces s ! nat i - 1) mod 150)
                      (S_TRACE_CHASE_COLORS ! nat (traceColorIndex s)) # ops))"
proof (cases "traces s ! nat i = 0")
  case True
  then show ?thesis using assms
    by (simp add: rd_def wr_def NUM_STRIP_LEDS_def S_TRACE_CHASE_COLORS_def Let_def
        split: option.splits)
next
  case False
  then have "(traces s ! nat i - 1) mod 150 = traces s ! nat i - 1"
    using assms by simp
  then show ?thesis using assms False
    by (simp add: rd_def wr_def NUM_STRIP_LEDS_def S_TRACE_CHASE_COLORS_def Let_def
        split: option.splits)
qed

lemma trace_forward_3:
  assumes "0 \<le> i" "i < int (length (traces s))" "0 \<le> traces s ! nat i" "traces s ! nat i < 150"
    "0 \<le> traceColorIndex s" "traceColorIndex s < 3"
  shows "trace_forward 3 i s =
     Some (s\<lparr>traces := (traces s)[nat i := (traces s ! nat i + 3) mod 150]\<rparr>,
       [SetHSV (GetStrip i + (traces s ! nat i + 1) mod 150) (S_TRACE_CHASE_COLORS ! nat (traceColorIndex s)),
        SetHSV (GetStrip i + (traces s ! nat i + 2) mod 150) (S_TRACE_CHASE_COLORS ! nat (traceColorIndex s)),
        SetHSV (GetStrip i + (traces s ! nat i + 3) mod 150) (S_TRACE_CHASE_COLORS ! nat (traceColorIndex s))])"
  using assms
  apply (simp add: numeral_3_eq_3 trace_forward_Suc mod_add_left_eq del: trace_forward.simps(2))
  apply (simp add: add.commute)
  done

lemma trace_backward_3:
  assumes "0 \<le> i" "i < int (length (traces s))" "0 \<le> traces s ! nat i" "traces s ! nat i < 150"
    "0 \<le> traceColorIndex s" "traceColorIndex s < 3"
  shows "trace_backward 3 i s =
     Some (s\<lparr>traces := (traces s)[nat i := (traces s ! nat i - 3) mod 150]\<rparr>,
       [SetHSV (GetStrip i + (traces s ! nat i - 1) mod 150) (S_TRACE_CHASE_COLORS ! nat (traceColorIndex s)),
        SetHSV (GetStrip i + (traces s ! nat i - 2) mod 150) (S_TRACE_CHASE_COLORS ! nat (traceColorIndex s)),
        SetHSV (GetStrip i + (traces s ! nat i - 3) mod 150) (S_TRACE_CHASE_COLORS ! nat (traceColorIndex s))])"
  using assms
  by (simp add: numeral_3_eq_3 trace_backward_Suc mod_diff_left_eq del: trace_backward.simps(2))

lemma S_TraceChase_Update_exact:
  assumes "trace_ok s"
  shows "S_TraceChase_Update s =
    Some (s\<lparr>traces := map (\<lambda>i. if i mod 2 = 1 then (traces s ! nat i - 3) mod 150
                                else (traces s ! nat i + 3) mod 150) [0 .. 7]\<rparr>,
          concat (map (\<lambda>i. map (\<lambda>k. SetHSV
                 (GetStrip i + (if i mod 2 = 1 then (traces s ! nat i - k) mod 150
                                else (traces s ! nat i + k) mod 150))
                 (S_TRACE_CHASE_COLORS ! nat (i mod 3))) [1 .. 3]) [0 .. 7])
          @ fade S_TRACE_FALLOFF_RATE)"
proof -
  from assms obtain a b c d e f g h where ts: "traces s = [a,b,c,d,e,f,g,h]"
    using len8 [of "traces s"] by (auto simp: trace_ok_def)
  from assms ts have rng: "0 \<le> a" "a < 150" "0 \<le> b" "b < 150" "0 \<le> c" "c < 150" "0 \<le> d" "d < 150"
    "0 \<le> e" "e < 150" "0 \<le> f" "f < 150" "0 \<le> g" "g < 150" "0 \<le> h" "h < 150"
    by (auto simp: trace_ok_def)
  from assms have ci: "traceColorIndex s = 0" by (simp add: trace_ok_def)
  show ?thesis
    unfolding S_TraceChase_Update_def
    using ts rng ci
    by (simp add: upto8 upto13 trace_forward_3 trace_backward_3 NUM_STRIPS_def ZIG_ZAG_def S_TRACE_SPEED_def
        S_TRACE_CHASE_NUM_COLORS_def)
qed

lemma trace_ops_shape:
  assumes "trace_ok u"
  shows "\<exists>u' ops. S_TraceChase_Update u = Some (u', ops)
     \<and> (\<forall>op \<in> set ops. (\<exists>i. op = Nscale8 i 230)
           \<or> (\<exists>i c. op = SetHSV i c \<and> c \<in> set S_TRACE_CHASE_COLORS))"
proof -
  have f: "\<forall>op \<in> set (fade S_TRACE_FALLOFF_RATE). \<exists>i. op = Nscale8 i 230"
    using fade_range [of _ S_TRACE_FALLOFF_RATE] by (auto simp: S_TRACE_FALLOFF_RATE_def)
  have p: "S_TRACE_CHASE_COLORS ! 0 \<in> set S_TRACE_CHASE_COLORS"
    "S_TRACE_CHASE_COLORS ! Suc 0 \<in> set S_TRACE_CHASE_COLORS"
    "S_TRACE_CHASE_COLORS ! 2 \<in> set S_TRACE_CHASE_COLORS"
    by (simp_all add: S_TRACE_CHASE_COLORS_def)
  have "\<forall>op \<in> set (concat (map (\<lambda>i. map (\<lambda>k. SetHSV
                 (GetStrip i + (if i mod 2 = 1 then (traces u ! nat i - k) mod 150
                                else (traces u ! nat i + k) mod 150))
                 (S_TRACE_CHASE_COLORS ! nat (i mod 3))) [1 .. 3]) [0 .. 7])).
          \<exists>i c. op = SetHSV i c \<and> c \<in> set S_TRACE_CHASE_COLORS"
    using p by (simp add: upto8 upto13)
  with f show ?thesis
    unfolding S_TraceChase_Update_exact [OF assms] by auto
qed

lemma trace_update_ok:
  assumes "trace_ok s"
  shows "\<exists>s' ops. S_TraceChase_Update s = Some (s', ops) \<and> trace_ok s'
     \<and> (\<forall>op \<in> set ops. 0 \<le> op_index op \<and> op_index op < 1200)"
proof -
  have m: "\<And>x::int. 0 \<le> x mod 150 \<and> x mod 150 < 150" by simp
  have ok: "trace_ok (s\<lparr>traces := map (\<lambda>i. if i mod 2 = 1 then (traces s ! nat i - 3) mod 150
                                else (traces s ! nat i + 3) mod 150) [0 .. 7]\<rparr>)"
    using assms by (auto simp: trace_ok_def upto8)
  have "\<And>i x::int. 0 \<le> i \<Longrightarrow> i \<le> 7 \<Longrightarrow> 0 \<le> GetStrip i + x mod 150 \<and> GetStrip i + x mod 150 < 1200"
  proof -
    fix i x :: int assume "0 \<le> i" "i \<le> 7"
    then have "0 \<le> i * 150" "i * 150 \<le> 1050" by simp_all
    with m [of x] show "0 \<le> GetStrip i + x mod 150 \<and> GetStrip i + x mod 150 < 1200"
      unfolding GetStrip_def NUM_STRIP_LEDS_def by linarith
  qed
  then have "\<forall>op \<in> set (concat (map (\<lambda>i. map (\<lambda>k. SetHSV
                 (GetStrip i + (if i mod 2 = 1 then (traces s ! nat i - k) mod 150
                                else (traces s ! nat i + k) mod 150))
                 (S_TRACE_CHASE_COLORS ! nat (i mod 3))) [1 .. 3]) [0 .. 7])).
           0 \<le> op_index op \<and> op_index op < 1200"
    by (simp add: upto8 upto13)
  then show ?thesis
    using S_TraceChase_Update_exact [OF assms] ok by (auto dest: fade_range)
qed

lemma trace_init_ok:
  assumes "length (traces s) = 8" "traceColorIndex s = 0"
  shows "trace_ok (S_TraceChase_Init s)"
proof -
  from assms obtain a b c d e f g h where ts: "traces s = [a,b,c,d,e,f,g,h]"
    using len8 [of "traces s"] by auto
  have "[1 .. (7::int)] = [1,2,3,4,5,6,7]" by (simp add: upto_rec1)
  then show ?thesis using ts assms
    by (simp add: trace_ok_def S_TraceChase_Init_def config)
qed

lemma trace_init_const:
  assumes "length (traces s) = 8"
  shows "S_TraceChase_Init s = s\<lparr>traces := [0, 135, 30, 105, 60, 75, 90, 45]\<rparr>"
proof -
  from assms obtain a b c d e f g h where ts: "traces s = [a,b,c,d,e,f,g,h]"
    using len8 [of "traces s"] by auto
  have "[1 .. (7::int)] = [1,2,3,4,5,6,7]" by (simp add: upto_rec1)
  then show ?thesis using ts
    by (simp add: S_TraceChase_Init_def config)
qed

lemma trace_new_ok: "trace_ok S_TraceChase_new"
  by (simp add: trace_ok_def S_TraceChase_new_def NUM_STRIPS_def upto8)

lemma trace_init_eq:
  assumes "trace_ok s"
  shows "S_TraceChase_Init s = S_TraceChase_Init S_TraceChase_new"
proof -
  from assms have "length (traces s) = 8" "traceColorIndex s = 0" by (simp_all add: trace_ok_def)
  moreover have "length (traces S_TraceChase_new) = 8" "traceColorIndex S_TraceChase_new = 0"
    using trace_new_ok by (simp_all add: trace_ok_def)
  ultimately show ?thesis
    by (simp add: trace_init_const)
qed

lemma trace_reachable_ok: "trace_reachable s \<Longrightarrow> trace_ok s"
proof (induction rule: trace_reachable.induct)
  case fresh
  show ?case by (simp add: trace_ok_def S_TraceChase_new_def NUM_STRIPS_def upto8)
next
  case (init s)
  then show ?case by (intro trace_init_ok) (simp_all add: trace_ok_def)
next
  case (wrapup s)
  then show ?case by (simp add: S_TraceChase_WrapUp_def)
next
  case (update s s' ops)
  from trace_update_ok [OF update.IH] update.hyps(2) show ?case by auto
qed

lemma fw_step: "((t + 3) mod 150 + 3 * int n) mod 150 = (t + 3 * int (Suc n)) mod (150::int)"
proof -
  have "((t + 3) mod 150 + 3 * int n) mod 150 = (t + 3 + 3 * int n) mod 150"
    by (rule mod_add_left_eq)
  also have "t + 3 + 3 * int n = t + 3 * int (Suc n)" by simp
  finally show ?thesis .
qed

lemma bw_step: "((t - 3) mod 150 - 3 * int n) mod 150 = (t - 3 * int (Suc n)) mod (150::int)"
proof -
  have "((t - 3) mod 150 - 3 * int n) mod 150 = (t - 3 - 3 * int n) mod 150"
    by (rule mod_diff_left_eq)
  also have "t - 3 - 3 * int n = t - 3 * int (Suc n)" by simp
  finally show ?thesis .
qed

lemma trace_updates_closed:
  assumes "trace_ok s"
  shows "trace_updates n s =
    Some (s\<lparr>traces := map (\<lambda>i. if i mod 2 = 1 then (traces s ! nat i - 3 * int n) mod 150
                                else (traces s ! nat i + 3 * int n) mod 150) [0 .. 7]\<rparr>)"
  using assms
proof (induction n arbitrary: s)
  case 0
  then obtain a b c d e f g h where ts: "traces s = [a,b,c,d,e,f,g,h]"
    using len8 [of "traces s"] by (auto simp: trace_ok_def)
  with 0 show ?case by (simp add: upto8 trace_ok_def)
next
  case (Suc n)
  define s1 where "s1 = s\<lparr>traces := map (\<lambda>i. if i mod 2 = 1 then (traces s ! nat i - 3) mod 150
                                else (traces s ! nat i + 3) mod 150) [0 .. 7]\<rparr>"
  have ok1: "trace_ok s1"
    using Suc.prems by (auto simp: trace_ok_def upto8 s1_def)
  from S_TraceChase_Update_exact [OF Suc.prems] have "\<exists>ops. S_TraceChase_Update s = Some (s1, ops)"
    by (simp add: s1_def)
  then have "trace_updates (Suc n) s = trace_updates n s1" by auto
  also have "\<dots> = Some (s1\<lparr>traces := map (\<lambda>i. if i mod 2 = 1 then (traces s1 ! nat i - 3 * int n) mod 150
                                else (traces s1 ! nat i + 3 * int n) mod 150) [0 .. 7]\<rparr>)"
    by (rule Suc.IH [OF ok1])
  also have "\<dots> = Some (s\<lparr>traces := map (\<lambda>i. if i mod 2 = 1 then (traces s ! nat i - 3 * int (Suc n)) mod 150
                                else (traces s ! nat i + 3 * int (Suc n)) mod 150) [0 .. 7]\<rparr>)"
    by (simp add: s1_def upto8 fw_step bw_step del: of_nat_Suc)
  finally show ?case .
qed

lemma trace_updates_period:
  assumes "trace_ok s" "150 dvd 3 * int n"
  shows "trace_updates n s = Some s"
proof -
  from assms(1) obtain a b c d e f g h where ts: "traces s = [a,b,c,d,e,f,g,h]"
    using len8 [of "traces s"] by (auto simp: trace_ok_def)
  from assms(2) obtain q where q: "3 * int n = 150 * q" by (auto simp: dvd_def)
  have "\<And>t::int. 0 \<le> t \<Longrightarrow> t < 150 \<Longrightarrow> (t + 150 * q) mod 150 = t \<and> (t - 150 * q) mod 150 = t"
    by (simp add: mod_diff_right_eq [symmetric])
  with assms(1) ts show ?thesis
    unfolding trace_updates_closed [OF assms(1)] q
    by (simp add: upto8 trace_ok_def)
qed

lemma trace_updates_add:
  "trace_updates (m + n) s = do { s' \<leftarrow> trace_updates m s; trace_updates n s' }"
  by (induction m arbitrary: s) (auto split: Option.bind_splits)

section \<open>The main loop keeps its invariant\<close>

lemma call_Update_ok:
  assumes "engine_mid e"
  shows "\<exists>e'. call_Update cv d e = Some e' \<and> engine_mid e'
     \<and> (ledSequence e = 0 \<or> ringChase e' = ringChase e)
     \<and> (ledSequence e \<noteq> 0 \<or> pulseColorIndex (ringChase e') < 3)"
proof -
  from assms have sq: "0 \<le> ledSequence e" "ledSequence e < 3" and ln: "length (leds e) = 1200"
    and r: "ring_ok (ringChase e)" and t: "trace_ok (traceChase e)"
    by (simp_all add: engine_mid_def)
  from sq consider "ledSequence e = 0" | "ledSequence e = 1" | "ledSequence e = 2" by linarith
  then show ?thesis
  proof cases
    case 1
    from ring_update_ok [OF r] obtain s' where
      s': "S_RingChase_Update (ringChase e) = Some (s', ring_ops (rings s'))" "ring_ok s'"
        "pulseColorIndex s' < 3" by blast
    have "\<forall>op \<in> set (ring_ops (rings s')). 0 \<le> op_index op \<and> op_index op < int (length (leds e))"
      using ring_ops_range ln by fastforce
    from exec_ops_ok [OF this, of cv] obtain l where
      "exec_ops cv (ring_ops (rings s')) (leds e) = Some l" "length l = length (leds e)" by blast
    with 1 s' ln t sq show ?thesis
      by (simp add: call_Update_def engine_mid_def)
  next
    case 2
    have "\<exists>s' ops. S_Twinkle_Update d (twinkle e) = Some (s', ops)"
      by (cases d) (simp add: twinkle_update)
    then obtain s' ops where s': "S_Twinkle_Update d (twinkle e) = Some (s', ops)" by blast
    have "\<forall>op \<in> set ops. 0 \<le> op_index op \<and> op_index op < int (length (leds e))"
      using twinkle_ops_range [OF s'] ln by fastforce
    from exec_ops_ok [OF this, of cv] obtain l where
      "exec_ops cv ops (leds e) = Some l" "length l = length (leds e)" by blast
    with 2 s' ln t r sq show ?thesis
      by (simp add: call_Update_def engine_mid_def)
  next
    case 3
    from trace_update_ok [OF t] obtain s' ops where
      s': "S_TraceChase_Update (traceChase e) = Some (s', ops)" "trace_ok s'"
        "\<forall>op \<in> set ops. 0 \<le> op_index op \<and> op_index op < 1200" by blast
    have "\<forall>op \<in> set ops. 0 \<le> op_index op \<and> op_index op < int (length (leds e))"
      using s'(3) ln by fastforce
    from exec_ops_ok [OF this, of cv] obtain l where
      "exec_ops cv ops (leds e) = Some l" "length l = length (leds e)" by blast
    with 3 s' ln t r sq show ?thesis
      by (simp add: call_Update_def engine_mid_def)
  qed
qed

lemma call_WrapUp_ok:
  assumes "engine_mid e" "ledSequence e \<noteq> 0 \<or> pulseColorIndex (ringChase e) < 3"
  shows "\<exists>e'. call_WrapUp e = Some e' \<and> engine_mid e'
     \<and> pulseColorIndex (ringChase e') = pulseColorIndex (ringChase e)"
proof -
  from assms have sq: "0 \<le> ledSequence e" "ledSequence e < 3" by (simp_all add: engine_mid_def)
  from sq consider "ledSequence e = 0" | "ledSequence e = 1" | "ledSequence e = 2" by linarith
  then show ?thesis using assms
    by cases (auto simp: call_WrapUp_def engine_mid_def ring_ok_def S_RingChase_WrapUp_def
        S_Twinkle_WrapUp_def S_TraceChase_WrapUp_def)
qed

lemma call_Init_ok:
  assumes "engine_mid e"
  shows "\<exists>e'. call_Init e = Some e' \<and> engine_mid e'
     \<and> (ledSequence e = 0 \<or> ringChase e' = ringChase e)"
proof -
  from assms have sq: "0 \<le> ledSequence e" "ledSequence e < 3"
    and t: "trace_ok (traceChase e)" by (simp_all add: engine_mid_def)
  from t have "trace_ok (S_TraceChase_Init (traceChase e))"
    by (intro trace_init_ok) (simp_all add: trace_ok_def)
  moreover from sq consider "ledSequence e = 0" | "ledSequence e = 1" | "ledSequence e = 2"
    by linarith
  ultimately show ?thesis using assms
    by cases (auto simp: call_Init_def engine_mid_def ring_ok_def S_RingChase_Init_def
        S_Twinkle_Init_def S_RING_CHASE_NUM_PULSE_COLORS_def)
qed

lemma call_frame:
  "call_Init e = Some e' \<Longrightarrow> sequenceTimer e' = sequenceTimer e \<and> ledSequence e' = ledSequence e"
  "call_WrapUp e = Some e' \<Longrightarrow> sequenceTimer e' = sequenceTimer e \<and> ledSequence e' = ledSequence e"
  "call_Update cv d e = Some e' \<Longrightarrow> sequenceTimer e' = sequenceTimer e \<and> ledSequence e' = ledSequence e"
  by (auto simp: call_Init_def call_WrapUp_def call_Update_def
      split: if_splits Option.bind_splits)

lemma loop_sched:
  assumes "loop cv d e = Some (e', cs)"
  shows "sequenceTimer e' = (if sequenceTimer e - 1 < 0 then 300 else sequenceTimer e - 1)
    \<and> ledSequence e' = (if sequenceTimer e - 1 < 0
                         then (if ledSequence e + 1 > 2 then 0 else ledSequence e + 1)
                         else ledSequence e)
    \<and> cs = (if sequenceTimer e - 1 = 20 then [(ledSequence e, WrapUp)] else [])
           @ (if sequenceTimer e - 1 < 0 then [(ledSequence e', Init)] else [])
           @ [(ledSequence e', Update)]"
  using assms
  by (auto simp: loop_def Let_def config split: if_splits Option.bind_splits
      dest!: call_frame)

lemma mid_timer: "engine_mid (e\<lparr>sequenceTimer := x\<rparr>) = engine_mid e"
  "engine_mid (e\<lparr>ledSequence := y\<rparr>) = (0 \<le> y \<and> y < 3 \<and> engine_mid (e\<lparr>ledSequence := 0\<rparr>))"
  by (auto simp: engine_mid_def)

lemma loop_ok:
  assumes "engine_ok e"
  shows "\<exists>e' cs. loop cv d e = Some (e', cs) \<and> engine_ok e'"
proof -
  define e1 where "e1 = e\<lparr>sequenceTimer := sequenceTimer e - 1\<rparr>"
  define wrapup_part where "wrapup_part = (\<lambda>e1. if sequenceTimer e1 = WRAPUP_WARNING_OFFSET
                 then do { x \<leftarrow> call_WrapUp e1; Some (x, [(ledSequence e1, WrapUp)]) }
                 else Some (e1, []))"
  define rotate_part where "rotate_part = (\<lambda>e2. if sequenceTimer e2 < 0
                 then do {
                   let n = ledSequence e2 + 1;
                   let x = e2\<lparr>ledSequence := (if n > NUM_SEQUENCES - 1 then 0 else n)\<rparr>;
                   x' \<leftarrow> call_Init x;
                   Some (x'\<lparr>sequenceTimer := SEQUENCE_DURATION\<rparr>, [(ledSequence x, Init)]) }
                 else Some (e2, []))"
  have loop_eq: "loop cv d e = do {
      (e2, c2) \<leftarrow> wrapup_part e1;
      (e3, c3) \<leftarrow> rotate_part e2;
      e4 \<leftarrow> call_Update cv d e3;
      Some (e4, c2 @ c3 @ [(ledSequence e3, Update)]) }"
    by (simp add: loop_def wrapup_part_def rotate_part_def e1_def Let_def)
  from assms have mid1: "engine_mid e1"
    and pr: "pulseColorIndex (ringChase e) < 3 \<or> sequenceTimer e = 300 \<and> ledSequence e = 0"
    by (simp_all add: engine_ok_def e1_def mid_timer)
  have f1: "ledSequence e1 = ledSequence e" "ringChase e1 = ringChase e"
    "sequenceTimer e1 = sequenceTimer e - 1"
    by (simp_all add: e1_def)
  have "\<exists>e2 c2. wrapup_part e1 = Some (e2, c2)
         \<and> engine_mid e2 \<and> sequenceTimer e2 = sequenceTimer e1 \<and> ledSequence e2 = ledSequence e1
         \<and> pulseColorIndex (ringChase e2) = pulseColorIndex (ringChase e)"
  proof (cases "sequenceTimer e1 = WRAPUP_WARNING_OFFSET")
    case True
    with f1 pr have "ledSequence e1 \<noteq> 0 \<or> pulseColorIndex (ringChase e1) < 3"
      by (auto simp: WRAPUP_WARNING_OFFSET_def)
    from call_WrapUp_ok [OF mid1 this] obtain x where
      x: "call_WrapUp e1 = Some x" "engine_mid x"
        "pulseColorIndex (ringChase x) = pulseColorIndex (ringChase e1)" by blast
    with True call_frame(2) [OF x(1)] f1 show ?thesis by (simp add: wrapup_part_def)
  next
    case False
    with mid1 f1 show ?thesis by (simp add: wrapup_part_def)
  qed
  then obtain e2 c2 where s2: "wrapup_part e1 = Some (e2, c2)"
    and mid2: "engine_mid e2" and f2: "sequenceTimer e2 = sequenceTimer e1"
      "ledSequence e2 = ledSequence e1"
      "pulseColorIndex (ringChase e2) = pulseColorIndex (ringChase e)" by blast
  have "\<exists>e3 c3. rotate_part e2 = Some (e3, c3)
         \<and> engine_mid e3
         \<and> (ledSequence e3 = 0 \<or> pulseColorIndex (ringChase e3) = pulseColorIndex (ringChase e))
         \<and> (sequenceTimer e2 < 0 \<or> ledSequence e3 = ledSequence e)"
  proof (cases "sequenceTimer e2 < 0")
    case True
    define x where "x = e2\<lparr>ledSequence := (if ledSequence e2 + 1 > NUM_SEQUENCES - 1 then 0
                                             else ledSequence e2 + 1)\<rparr>"
    from mid2 have midx: "engine_mid x"
      by (auto simp: x_def engine_mid_def NUM_SEQUENCES_def)
    from call_Init_ok [OF midx] obtain x' where
      x': "call_Init x = Some x'" "engine_mid x'" "ledSequence x = 0 \<or> ringChase x' = ringChase x"
      by blast
    have rx: "ringChase x = ringChase e2" by (simp add: x_def)
    have "rotate_part e2
        = do { x' \<leftarrow> call_Init x;
               Some (x'\<lparr>sequenceTimer := SEQUENCE_DURATION\<rparr>, [(ledSequence x, Init)]) }"
      using True by (simp add: Let_def x_def rotate_part_def)
    also have "\<dots> = Some (x'\<lparr>sequenceTimer := SEQUENCE_DURATION\<rparr>, [(ledSequence x, Init)])"
      using x'(1) by simp
    finally have st: "rotate_part e2
        = Some (x'\<lparr>sequenceTimer := SEQUENCE_DURATION\<rparr>, [(ledSequence x, Init)])" .
    have a: "engine_mid (x'\<lparr>sequenceTimer := SEQUENCE_DURATION\<rparr>)"
      using x'(2) by (simp add: mid_timer)
    have b: "ledSequence (x'\<lparr>sequenceTimer := SEQUENCE_DURATION\<rparr>) = 0
        \<or> pulseColorIndex (ringChase (x'\<lparr>sequenceTimer := SEQUENCE_DURATION\<rparr>))
           = pulseColorIndex (ringChase e)"
      using x'(3) call_frame(1) [OF x'(1)] rx f2 by auto
    from st a b True show ?thesis by blast
  next
    case False
    with mid2 f2 f1 show ?thesis by (simp add: rotate_part_def)
  qed
  then obtain e3 c3 where s3: "rotate_part e2 = Some (e3, c3)"
    and mid3: "engine_mid e3"
    and f3: "ledSequence e3 = 0 \<or> pulseColorIndex (ringChase e3) = pulseColorIndex (ringChase e)"
      "sequenceTimer e2 < 0 \<or> ledSequence e3 = ledSequence e" by blast
  from call_Update_ok [OF mid3, of cv d] obtain e4 where
    s4: "call_Update cv d e3 = Some e4" and mid4: "engine_mid e4"
    and f4: "ledSequence e3 = 0 \<or> ringChase e4 = ringChase e3"
      "ledSequence e3 \<noteq> 0 \<or> pulseColorIndex (ringChase e4) < 3" by blast
  have lp: "loop cv d e = Some (e4, c2 @ c3 @ [(ledSequence e3, Update)])"
    using s2 s3 s4 by (simp add: loop_eq)
  have "pulseColorIndex (ringChase e4) < 3"
  proof (cases "ledSequence e3 = 0")
    case True
    with f4 show ?thesis by simp
  next
    case False
    with f3 f4 have eq: "pulseColorIndex (ringChase e4) = pulseColorIndex (ringChase e)" by auto
    show ?thesis
    proof (cases "pulseColorIndex (ringChase e) < 3")
      case True
      with eq show ?thesis by simp
    next
      case False
      with pr have "sequenceTimer e = 300" "ledSequence e = 0" by simp_all
      with f1 f2 have "\<not> sequenceTimer e2 < 0" by simp
      with f3 \<open>ledSequence e = 0\<close> \<open>ledSequence e3 \<noteq> 0\<close> show ?thesis by simp
    qed
  qed
  with mid4 have "engine_ok e4" by (simp add: engine_ok_def)
  with lp show ?thesis by blast
qed

lemma setup_ok: "engine_ok (setup_engine p)"
  by (simp add: setup_engine_def engine_ok_def engine_mid_def ring_ok_def trace_ok_def
      S_RingChase_Init_def S_RingChase_new_def S_TraceChase_new_def config upto8 Let_def)

lemma loop_tick:
  assumes "loop cv d e = Some (e', cs)"
    and "sequenceTimer e = 300 - int (T mod 301)"
    and "ledSequence e = int ((T div 301) mod 3)"
  shows "sequenceTimer e' = 300 - int (Suc T mod 301)
     \<and> ledSequence e' = int ((Suc T div 301) mod 3)
     \<and> cs = tick_calls T"
proof -
  have k: "T mod 301 < 301" by simp
  have c: "(T div 301) mod 3 < 3" by simp
  show ?thesis
  proof (cases "T mod 301 = 300")
    case True
    then have "Suc T mod 301 = 0" "Suc T div 301 = Suc (T div 301)"
      by (simp_all add: mod_Suc div_Suc)
    moreover have "int (Suc (T div 301) mod 3)
        = (if int ((T div 301) mod 3) + 1 > 2 then 0 else int ((T div 301) mod 3) + 1)"
      using c by (auto simp: mod_Suc)
    ultimately show ?thesis
      using loop_sched [OF assms(1)] assms(2,3) True
      by (simp add: tick_calls_def Let_def)
  next
    case False
    with k have lt: "T mod 301 < 300" by linarith
    then have "Suc T mod 301 = Suc (T mod 301)" "Suc T div 301 = T div 301"
      by (simp_all add: mod_Suc div_Suc)
    then show ?thesis
      using loop_sched [OF assms(1)] assms(2,3) False lt
      by (auto simp: tick_calls_def Let_def)
  qed
qed

lemma run_ok:
  assumes "engine_ok e"
  shows "\<exists>e' css. run cv ds e = Some (e', css) \<and> engine_ok e'"
  using assms
proof (induction ds arbitrary: e)
  case Nil
  then show ?case by simp
next
  case (Cons d ds)
  from loop_ok [OF Cons.prems, of cv d] obtain e1 cs where
    "loop cv d e = Some (e1, cs)" "engine_ok e1" by blast
  moreover from Cons.IH [OF this(2)] obtain e2 css where
    "run cv ds e1 = Some (e2, css)" "engine_ok e2" by blast
  ultimately show ?case by simp
qed

lemma run_sched:
  assumes "run cv ds e = Some (e', css)"
    and "sequenceTimer e = 300 - int (T mod 301)"
    and "ledSequence e = int ((T div 301) mod 3)"
  shows "length css = length ds
     \<and> sequenceTimer e' = 300 - int ((T + length ds) mod 301)
     \<and> ledSequence e' = int (((T + length ds) div 301) mod 3)
     \<and> (\<forall>t < length ds. css ! t = tick_calls (T + t))"
  using assms
proof (induction ds arbitrary: e css T)
  case Nil
  then show ?case by simp
next
  case (Cons d ds)
  from Cons.prems(1) obtain e1 cs later where
    st: "loop cv d e = Some (e1, cs)" and rest: "run cv ds e1 = Some (e', later)"
    and css: "css = cs # later"
    by (auto split: Option.bind_splits)
  from loop_tick [OF st Cons.prems(2,3)] have
    t1: "sequenceTimer e1 = 300 - int (Suc T mod 301)"
    and s1: "ledSequence e1 = int ((Suc T div 301) mod 3)"
    and cs: "cs = tick_calls T" by simp_all
  from Cons.IH [OF rest t1 s1] have ih: "length later = length ds"
    "sequenceTimer e' = 300 - int ((Suc T + length ds) mod 301)"
    "ledSequence e' = int (((Suc T + length ds) div 301) mod 3)"
    "\<forall>t < length ds. later ! t = tick_calls (Suc T + t)" by simp_all
  have "\<forall>t < length (d # ds). css ! t = tick_calls (T + t)"
  proof (intro allI impI)
    fix t assume "t < length (d # ds)"
    then show "css ! t = tick_calls (T + t)"
      using ih(4) cs css by (cases t) simp_all
  qed
  with ih css show ?case by simp
qed

section \<open>The scheduler's cycle\<close>

text \<open>
  Claim C1. With a rotation duration of 300, a wrap-up offset of 20 and the three registered
  sequences, the main loop run from the state \<open>setup\<close> leaves (index 0, \<open>Init\<close> invoked,
  countdown 300) never faults, and works in cycles of 301 ticks. The tick with index \<open>t\<close>
  (counted from 0) calls \<open>WrapUp\<close> exactly when \<open>t mod 301 = 279\<close>, the 280th tick of its
  cycle, where the decremented countdown equals 20; it rotates exactly when
  \<open>t mod 301 = 300\<close>, where the countdown falls below zero: the index advances to
  \<open>(index + 1) mod 3\<close>, \<open>Init\<close> is called on the new sequence and the countdown is back at
  300. Every tick calls \<open>Update\<close> of the current sequence last. After 301 ticks \<open>Init\<close> has
  fired on sequence 1; the index after \<open>n\<close> ticks is \<open>(n div 301) mod 3\<close>, periodic with
  period 3 in cycles.
\<close>
theorem C1_scheduler_cycle:
  "\<exists>e css. run cv ds (setup_engine past_end) = Some (e, css)
     \<and> length css = length ds
     \<and> sequenceTimer e = SEQUENCE_DURATION - int (length ds mod 301)
     \<and> ledSequence e = int ((length ds div 301) mod 3)
     \<and> (\<forall>t < length ds. css ! t =
          (if t mod 301 = 300
           then [(int (Suc (t div 301) mod 3), Init), (int (Suc (t div 301) mod 3), Update)]
           else if t mod 301 = 279
           then [(int ((t div 301) mod 3), WrapUp), (int ((t div 301) mod 3), Update)]
           else [(int ((t div 301) mod 3), Update)]))"
proof -
  from run_ok [OF setup_ok, of cv ds past_end] obtain e css where
    r: "run cv ds (setup_engine past_end) = Some (e, css)" by blast
  have "sequenceTimer (setup_engine past_end) = 300 - int (0 mod 301)"
    "ledSequence (setup_engine past_end) = int ((0 div 301) mod 3)"
    by (simp_all add: setup_engine_def SEQUENCE_DURATION_def)
  from run_sched [OF r this] r show ?thesis
    by (simp add: tick_calls_def Let_def SEQUENCE_DURATION_def)
qed

theorem C1_scheduler_cycle_witness:
  "\<exists>e css. run (\<lambda>c. CRGB (hue c) (sat c) (val c)) (replicate 301 (0, 0, 0)) (setup_engine (CHSV 0 0 0)) = Some (e, css)
     \<and> sequenceTimer e = 300 \<and> ledSequence e = 1
     \<and> css ! 0 = [(0, Update)]
     \<and> css ! 279 = [(0, WrapUp), (0, Update)]
     \<and> css ! 280 = [(0, Update)]
     \<and> css ! 300 = [(1, Init), (1, Update)]"
proof -
  from C1_scheduler_cycle [of "\<lambda>c. CRGB (hue c) (sat c) (val c)" "replicate 301 (0, 0, 0)" "CHSV 0 0 0"]
  obtain e css where r: "run (\<lambda>c. CRGB (hue c) (sat c) (val c)) (replicate 301 (0, 0, 0)) (setup_engine (CHSV 0 0 0)) = Some (e, css)"
    and t: "sequenceTimer e = SEQUENCE_DURATION - int (length (replicate 301 (0::nat, 0::nat, 0::nat)) mod 301)"
    and s: "ledSequence e = int ((length (replicate 301 (0::nat, 0::nat, 0::nat)) div 301) mod 3)"
    and c: "\<forall>t < length (replicate 301 (0::nat, 0::nat, 0::nat)). css ! t =
          (if t mod 301 = 300
           then [(int (Suc (t div 301) mod 3), Init), (int (Suc (t div 301) mod 3), Update)]
           else if t mod 301 = 279
           then [(int ((t div 301) mod 3), WrapUp), (int ((t div 301) mod 3), Update)]
           else [(int ((t div 301) mod 3), Update)])"
    by blast
  from c have "css ! 0 = [(0, Update)]" "css ! 279 = [(0, WrapUp), (0, Update)]"
    "css ! 280 = [(0, Update)]" "css ! 300 = [(1, Init), (1, Update)]"
    by simp_all
  with r t s show ?thesis by (simp add: SEQUENCE_DURATION_def)
qed

section \<open>Channel values\<close>

text \<open>
  Claim C2. Every channel value written stays within 0..255. RingChase's linear falloff,
  computed in \<^verbatim>\<open>int\<close>, is \<open>max 0 (v - 8)\<close>: it is never negative, needs no wrap-around
  when stored into the byte, and never exceeds the value before; after every \<open>Update\<close> each
  ring's value is at most 247 and every buffer write of RingChase stores one of the rings.
  Twinkle's brightness is within 0..255 before it is stored, and the one pixel Twinkle sets
  has brightness 155..254; TraceChase sets pixels to palette colours only. All other buffer
  operations of Twinkle and TraceChase are the multiplicative decay \<open>nscale8\<close> with scale
  \<open>255 - falloff\<close> (245 and 230), which never increases a channel of any pixel of the
  buffer.
\<close>
theorem C2_channel_values_bounded:
  "0 \<le> falloff_value x \<and> falloff_value x \<le> 255
   \<and> falloff_value x = max 0 (uint x - S_RING_CHASE_FALLOF_RATE)
   \<and> uint (val (falloff c)) = falloff_value (val c) \<and> uint (val (falloff c)) \<le> uint (val c)
   \<and> (ring_ok s \<longrightarrow>
        (\<exists>s'. S_RingChase_Update s = Some (s', ring_ops (rings s'))
           \<and> (\<forall>c' \<in> set (rings s'). uint (val c') \<le> 255 - S_RING_CHASE_FALLOF_RATE)
           \<and> (\<forall>op \<in> set (ring_ops (rings s')). \<exists>i k. op = SetHSV i (rings s' ! k) \<and> k < 8)))
   \<and> 0 \<le> random_range r (255 - S_TWINKLE_BRIGHTNESS_VARIANCE) 255
   \<and> random_range r (255 - S_TWINKLE_BRIGHTNESS_VARIANCE) 255 \<le> 255
   \<and> (\<exists>t' ops. S_Twinkle_Update d t = Some (t', ops)
         \<and> (\<forall>op \<in> set ops. (\<exists>i. op = Nscale8 i 245)
               \<or> (\<exists>i b. op = SetHSV i (CHSV 190 255 b) \<and> 155 \<le> uint b \<and> uint b \<le> 254)))
   \<and> (trace_ok u \<longrightarrow>
        (\<exists>u' ops. S_TraceChase_Update u = Some (u', ops)
           \<and> (\<forall>op \<in> set ops. (\<exists>i. op = Nscale8 i 230)
                 \<or> (\<exists>i c. op = SetHSV i c \<and> c \<in> set S_TRACE_CHASE_COLORS))))
   \<and> unat (scale8 y sc) \<le> unat y
   \<and> unat (red (nscale8 px sc)) \<le> unat (red px)
   \<and> unat (green (nscale8 px sc)) \<le> unat (green px)
   \<and> unat (blue (nscale8 px sc)) \<le> unat (blue px)
   \<and> (op \<in> set (fade rate) \<longrightarrow> (\<exists>i. op = Nscale8 i (word_of_int (255 - rate))))
   \<and> (exec_op cv (Nscale8 i sc) l = Some l' \<longrightarrow>
        length l' = length l
        \<and> (\<forall>j < length l. unat (red (l' ! j)) \<le> unat (red (l ! j))
              \<and> unat (green (l' ! j)) \<le> unat (green (l ! j))
              \<and> unat (blue (l' ! j)) \<le> unat (blue (l ! j))))"
proof -
  have a: "0 \<le> falloff_value x \<and> falloff_value x \<le> 255
     \<and> falloff_value x = max 0 (uint x - S_RING_CHASE_FALLOF_RATE)"
    using falloff_value_range [of x] by (simp add: falloff_value_eq S_RING_CHASE_FALLOF_RATE_def)
  have "0 \<le> uint (val c)" by simp
  then have b: "uint (val (falloff c)) = falloff_value (val c) \<and> uint (val (falloff c)) \<le> uint (val c)"
    by (simp add: uint_falloff falloff_value_eq)
  have c: "ring_ok s \<longrightarrow>
        (\<exists>s'. S_RingChase_Update s = Some (s', ring_ops (rings s'))
           \<and> (\<forall>c' \<in> set (rings s'). uint (val c') \<le> 255 - S_RING_CHASE_FALLOF_RATE)
           \<and> (\<forall>op \<in> set (ring_ops (rings s')). \<exists>i k. op = SetHSV i (rings s' ! k) \<and> k < 8))"
  proof
    assume "ring_ok s"
    from ring_update_ok [OF this] obtain s' where
      s': "S_RingChase_Update s = Some (s', ring_ops (rings s'))"
        "\<forall>c \<in> set (rings s'). uint (val c) \<le> 247" by blast
    have "\<forall>op \<in> set (ring_ops (rings s')). \<exists>i k. op = SetHSV i (rings s' ! k) \<and> k < 8"
      using ring_ops_range [of _ "rings s'"] by blast
    with s' show "\<exists>s'. S_RingChase_Update s = Some (s', ring_ops (rings s'))
           \<and> (\<forall>c' \<in> set (rings s'). uint (val c') \<le> 255 - S_RING_CHASE_FALLOF_RATE)
           \<and> (\<forall>op \<in> set (ring_ops (rings s')). \<exists>i k. op = SetHSV i (rings s' ! k) \<and> k < 8)"
      by (auto simp: S_RING_CHASE_FALLOF_RATE_def)
  qed
  have d: "0 \<le> random_range r (255 - S_TWINKLE_BRIGHTNESS_VARIANCE) 255
     \<and> random_range r (255 - S_TWINKLE_BRIGHTNESS_VARIANCE) 255 \<le> 255"
    using random_range_bounds [of "255 - S_TWINKLE_BRIGHTNESS_VARIANCE" 255 r]
    by (simp add: S_TWINKLE_BRIGHTNESS_VARIANCE_def)
  have e: "op \<in> set (fade rate) \<longrightarrow> (\<exists>i. op = Nscale8 i (word_of_int (255 - rate)))"
    using fade_range [of op rate] by blast
  have f: "exec_op cv (Nscale8 i sc) l = Some l' \<longrightarrow>
        length l' = length l
        \<and> (\<forall>j < length l. unat (red (l' ! j)) \<le> unat (red (l ! j))
              \<and> unat (green (l' ! j)) \<le> unat (green (l ! j))
              \<and> unat (blue (l' ! j)) \<le> unat (blue (l ! j)))"
    using exec_Nscale8 [of cv i sc l l'] by blast
  have g: "trace_ok u \<longrightarrow>
        (\<exists>u' ops. S_TraceChase_Update u = Some (u', ops)
           \<and> (\<forall>op \<in> set ops. (\<exists>i. op = Nscale8 i 230)
                 \<or> (\<exists>i c. op = SetHSV i c \<and> c \<in> set S_TRACE_CHASE_COLORS)))"
    using trace_ops_shape [of u] by blast
  note h = twinkle_ops_shape [of d t]
  note i = scale8_le [of y sc]
  note j = nscale8_le [of px sc]
  show ?thesis
    by (intro conjI) (use a b c d e f g h i j in \<open>blast+\<close>)
qed

theorem C2_channel_values_bounded_witness:
  "ring_ok (S_RingChase_new (CHSV 0 0 3))
   \<and> (\<exists>s'. S_RingChase_Update (S_RingChase_new (CHSV 0 0 3)) = Some (s', ring_ops (rings s'))
         \<and> rings s' ! 7 = CHSV 0 0 0)
   \<and> falloff_value 3 = 0 \<and> falloff_value 255 = 247
   \<and> Nscale8 0 245 \<in> set (fade 10)
   \<and> exec_op (\<lambda>c. CRGB (hue c) (sat c) (val c)) (Nscale8 0 245) [CRGB 200 100 50]
        = Some [CRGB 192 96 48]"
proof -
  let ?s = "S_RingChase_new (CHSV 0 0 3)"
  have ok: "ring_ok ?s"
    by (simp add: ring_ok_def S_RingChase_new_def Let_def config upto8)
  have u: "S_RingChase_Update ?s = Some
     (\<lparr>rings = [CHSV 190 255 247, CHSV 0 0 0, CHSV 0 0 0, CHSV 0 0 0, CHSV 0 0 0, CHSV 0 0 0,
                CHSV 0 0 0, CHSV 0 0 0],
       pulseTimer = 44, pulseRingShiftTimer = 1, pulseRingIndex = 1, pulseColorIndex = 0\<rparr>,
      ring_ops [CHSV 190 255 247, CHSV 0 0 0, CHSV 0 0 0, CHSV 0 0 0, CHSV 0 0 0, CHSV 0 0 0,
                CHSV 0 0 0, CHSV 0 0 0])"
    by (simp add: S_RingChase_new_def Let_def rd_def upto8 ring_pulse falloff_def
        falloff_value_def config)
  have m: "Nscale8 0 245 \<in> set (fade 10)"
    by (simp add: fade_def NUM_STRIPS_def NUM_STRIP_LEDS_def image_iff)
  have x: "exec_op (\<lambda>c. CRGB (hue c) (sat c) (val c)) (Nscale8 0 245) [CRGB 200 100 50]
        = Some [CRGB 192 96 48]"
    by (simp add: rd_def wr_def nscale8_def scale8_def)
  from C2_channel_values_bounded [where x = 3 and s = ?s and op = "Nscale8 0 245" and rate = 10
      and cv = "\<lambda>c. CRGB (hue c) (sat c) (val c)" and i = 0 and sc = 245
      and l = "[CRGB 200 100 50]" and l' = "[CRGB 192 96 48]" and u = S_TraceChase_new]
  have "falloff_value 3 = max 0 (uint (3 :: 8 word) - S_RING_CHASE_FALLOF_RATE)" by blast
  then have f3: "falloff_value 3 = 0" by (simp add: S_RING_CHASE_FALLOF_RATE_def)
  have f255: "falloff_value 255 = 247"
    by (simp add: falloff_value_def S_RING_CHASE_FALLOF_RATE_def)
  from ok u m x f3 f255 show ?thesis by simp
qed

section \<open>What Init resets\<close>

text \<open>
  Claim C3 says that \<open>Init\<close> fully resets every sequence. It does not. Twinkle's \<open>Init\<close> is
  empty: after one \<open>Update\<close> of a new instance the timer is 1, and \<open>Init\<close> followed by
  \<open>Update\<close> neither lights a pixel nor ends in the state of the new instance's first
  \<open>Update\<close>. RingChase's \<open>Init\<close> does not touch the rings: after three updates ring 1 holds
  the pulse colour, and \<open>Init\<close> followed by \<open>Update\<close> leaves it at brightness 239 where the
  new instance has the value found past the palette.
\<close>
theorem C3_init_reset_counterexample:
  "S_Twinkle_Update (0, 0, 0) S_Twinkle_new
     = Some (\<lparr>twinkleTimer = 1\<rparr>, SetHSV 1 (CHSV 190 255 155) # fade S_TWINKLE_FALLOFF_RATE)
   \<and> S_Twinkle_Update (0, 0, 0) (S_Twinkle_Init \<lparr>twinkleTimer = 1\<rparr>)
     = Some (\<lparr>twinkleTimer = 0\<rparr>, fade S_TWINKLE_FALLOFF_RATE)
   \<and> S_Twinkle_Update (0, 0, 0) (S_Twinkle_Init \<lparr>twinkleTimer = 1\<rparr>)
     \<noteq> S_Twinkle_Update (0, 0, 0) S_Twinkle_new
   \<and> ring_updates 3 (S_RingChase_new (CHSV 0 0 0))
     = Some \<lparr>rings = [CHSV 190 255 231, CHSV 190 255 247, CHSV 0 0 0, CHSV 0 0 0, CHSV 0 0 0,
                       CHSV 0 0 0, CHSV 0 0 0, CHSV 0 0 0],
              pulseTimer = 42, pulseRingShiftTimer = 1, pulseRingIndex = 2, pulseColorIndex = 0\<rparr>
   \<and> map_option fst (S_RingChase_Update (S_RingChase_Init
        \<lparr>rings = [CHSV 190 255 231, CHSV 190 255 247, CHSV 0 0 0, CHSV 0 0 0, CHSV 0 0 0,
                   CHSV 0 0 0, CHSV 0 0 0, CHSV 0 0 0],
         pulseTimer = 42, pulseRingShiftTimer = 1, pulseRingIndex = 2, pulseColorIndex = 0\<rparr>))
     = Some \<lparr>rings = [CHSV 190 255 247, CHSV 190 255 239, CHSV 0 0 0, CHSV 0 0 0, CHSV 0 0 0,
                       CHSV 0 0 0, CHSV 0 0 0, CHSV 0 0 0],
              pulseTimer = 44, pulseRingShiftTimer = 1, pulseRingIndex = 1, pulseColorIndex = 0\<rparr>
   \<and> map_option fst (S_RingChase_Update (S_RingChase_new (CHSV 0 0 0)))
     = Some \<lparr>rings = [CHSV 190 255 247, CHSV 0 0 0, CHSV 0 0 0, CHSV 0 0 0, CHSV 0 0 0,
                       CHSV 0 0 0, CHSV 0 0 0, CHSV 0 0 0],
              pulseTimer = 44, pulseRingShiftTimer = 1, pulseRingIndex = 1, pulseColorIndex = 0\<rparr>"
proof -
  have t1: "S_Twinkle_Update (0, 0, 0) S_Twinkle_new
     = Some (\<lparr>twinkleTimer = 1\<rparr>, SetHSV 1 (CHSV 190 255 155) # fade S_TWINKLE_FALLOFF_RATE)"
    by (simp add: twinkle_update S_Twinkle_new_def)
  have t2: "S_Twinkle_Update (0, 0, 0) (S_Twinkle_Init \<lparr>twinkleTimer = 1\<rparr>)
     = Some (\<lparr>twinkleTimer = 0\<rparr>, fade S_TWINKLE_FALLOFF_RATE)"
    by (simp add: twinkle_update S_Twinkle_Init_def)
  have t3: "S_Twinkle_Update (0, 0, 0) (S_Twinkle_Init \<lparr>twinkleTimer = 1\<rparr>)
     \<noteq> S_Twinkle_Update (0, 0, 0) S_Twinkle_new"
    unfolding t1 t2 by simp
  have n: "S_RingChase_new (CHSV 0 0 0)
     = \<lparr>rings = [CHSV 0 0 0, CHSV 0 0 0, CHSV 0 0 0, CHSV 0 0 0, CHSV 0 0 0, CHSV 0 0 0,
                 CHSV 0 0 0, CHSV 0 0 0],
        pulseTimer = 0, pulseRingShiftTimer = 0, pulseRingIndex = 0, pulseColorIndex = 3\<rparr>"
    by (simp add: S_RingChase_new_def Let_def rd_def upto8 config)
  have f0: "falloff (CHSV 0 0 0) = CHSV 0 0 0"
    by (simp add: falloff_def falloff_value_def S_RING_CHASE_FALLOF_RATE_def)
  have r1: "ring_updates 3 (S_RingChase_new (CHSV 0 0 0))
     = Some \<lparr>rings = [CHSV 190 255 231, CHSV 190 255 247, CHSV 0 0 0, CHSV 0 0 0, CHSV 0 0 0,
                       CHSV 0 0 0, CHSV 0 0 0, CHSV 0 0 0],
              pulseTimer = 42, pulseRingShiftTimer = 1, pulseRingIndex = 2, pulseColorIndex = 0\<rparr>"
    unfolding n
    by (simp add: ring_updates_numeral ring_pulse ring_step Let_def falloff_numeral f0
        S_RING_CHASE_COLORS_def)
  have r2: "map_option fst (S_RingChase_Update (S_RingChase_Init
        \<lparr>rings = [CHSV 190 255 231, CHSV 190 255 247, CHSV 0 0 0, CHSV 0 0 0, CHSV 0 0 0,
                   CHSV 0 0 0, CHSV 0 0 0, CHSV 0 0 0],
         pulseTimer = 42, pulseRingShiftTimer = 1, pulseRingIndex = 2, pulseColorIndex = 0\<rparr>))
     = Some \<lparr>rings = [CHSV 190 255 247, CHSV 190 255 239, CHSV 0 0 0, CHSV 0 0 0, CHSV 0 0 0,
                       CHSV 0 0 0, CHSV 0 0 0, CHSV 0 0 0],
              pulseTimer = 44, pulseRingShiftTimer = 1, pulseRingIndex = 1, pulseColorIndex = 0\<rparr>"
    by (simp add: S_RingChase_Init_def S_RING_CHASE_NUM_PULSE_COLORS_def ring_pulse Let_def
        falloff_numeral f0 S_RING_CHASE_COLORS_def)
  have r3: "map_option fst (S_RingChase_Update (S_RingChase_new (CHSV 0 0 0)))
     = Some \<lparr>rings = [CHSV 190 255 247, CHSV 0 0 0, CHSV 0 0 0, CHSV 0 0 0, CHSV 0 0 0,
                       CHSV 0 0 0, CHSV 0 0 0, CHSV 0 0 0],
              pulseTimer = 44, pulseRingShiftTimer = 1, pulseRingIndex = 1, pulseColorIndex = 0\<rparr>"
    unfolding n
    by (simp add: ring_pulse Let_def falloff_numeral f0 S_RING_CHASE_COLORS_def)
  from t1 t2 t3 r1 r2 r3 show ?thesis by blast
qed

text \<open>
  Claim C3, amended. For TraceChase, after every history of calls, \<open>Init\<close> produces the state
  it produces on a new instance, so \<open>Init\<close> followed by \<open>Update\<close> gives the same private
  state and the same buffer writes. RingChase's \<open>Init\<close> resets the two timers and the two
  indices to their constructor values and leaves the rings as they are: \<open>Init\<close> followed by
  \<open>Update\<close> agrees with the first \<open>Update\<close> of a new instance on timers, indices and ring 0,
  while rings 1 to 7 continue from their earlier values. Twinkle's \<open>Init\<close> changes nothing.
\<close>
theorem C3_init_reset_amended:
  "(trace_reachable s \<longrightarrow>
      S_TraceChase_Init s = S_TraceChase_Init S_TraceChase_new
      \<and> S_TraceChase_Update (S_TraceChase_Init s)
          = S_TraceChase_Update (S_TraceChase_Init S_TraceChase_new)
      \<and> (\<exists>s' ops. S_TraceChase_Update (S_TraceChase_Init s) = Some (s', ops)))
   \<and> rings (S_RingChase_Init r) = rings r
   \<and> pulseTimer (S_RingChase_Init r) = pulseTimer (S_RingChase_new past_end)
   \<and> pulseRingShiftTimer (S_RingChase_Init r) = pulseRingShiftTimer (S_RingChase_new past_end)
   \<and> pulseRingIndex (S_RingChase_Init r) = pulseRingIndex (S_RingChase_new past_end)
   \<and> pulseColorIndex (S_RingChase_Init r) = pulseColorIndex (S_RingChase_new past_end)
   \<and> (length (rings r) = 8 \<longrightarrow>
        (\<exists>r' f'. S_RingChase_Update (S_RingChase_Init r) = Some (r', ring_ops (rings r'))
           \<and> S_RingChase_Update (S_RingChase_new past_end) = Some (f', ring_ops (rings f'))
           \<and> pulseTimer r' = pulseTimer f' \<and> pulseRingShiftTimer r' = pulseRingShiftTimer f'
           \<and> pulseRingIndex r' = pulseRingIndex f' \<and> pulseColorIndex r' = pulseColorIndex f'
           \<and> rings r' ! 0 = rings f' ! 0
           \<and> rings r' = CHSV 190 255 247 # map falloff (tl (rings r))))
   \<and> S_Twinkle_Init t = t"
proof -
  have a: "trace_reachable s \<longrightarrow>
      S_TraceChase_Init s = S_TraceChase_Init S_TraceChase_new
      \<and> S_TraceChase_Update (S_TraceChase_Init s)
          = S_TraceChase_Update (S_TraceChase_Init S_TraceChase_new)
      \<and> (\<exists>s' ops. S_TraceChase_Update (S_TraceChase_Init s) = Some (s', ops))"
  proof
    assume r: "trace_reachable s"
    then have eq: "S_TraceChase_Init s = S_TraceChase_Init S_TraceChase_new"
      by (intro trace_init_eq trace_reachable_ok)
    from r have "trace_ok (S_TraceChase_Init s)"
      by (intro trace_reachable_ok trace_reachable.init)
    from trace_update_ok [OF this] eq
    show "S_TraceChase_Init s = S_TraceChase_Init S_TraceChase_new
      \<and> S_TraceChase_Update (S_TraceChase_Init s)
          = S_TraceChase_Update (S_TraceChase_Init S_TraceChase_new)
      \<and> (\<exists>s' ops. S_TraceChase_Update (S_TraceChase_Init s) = Some (s', ops))"
      by auto
  qed
  have b: "rings (S_RingChase_Init r) = rings r
   \<and> pulseTimer (S_RingChase_Init r) = pulseTimer (S_RingChase_new past_end)
   \<and> pulseRingShiftTimer (S_RingChase_Init r) = pulseRingShiftTimer (S_RingChase_new past_end)
   \<and> pulseRingIndex (S_RingChase_Init r) = pulseRingIndex (S_RingChase_new past_end)
   \<and> pulseColorIndex (S_RingChase_Init r) = pulseColorIndex (S_RingChase_new past_end)"
    by (simp add: S_RingChase_Init_def S_RingChase_new_def Let_def)
  have c: "length (rings r) = 8 \<longrightarrow>
        (\<exists>r' f'. S_RingChase_Update (S_RingChase_Init r) = Some (r', ring_ops (rings r'))
           \<and> S_RingChase_Update (S_RingChase_new past_end) = Some (f', ring_ops (rings f'))
           \<and> pulseTimer r' = pulseTimer f' \<and> pulseRingShiftTimer r' = pulseRingShiftTimer f'
           \<and> pulseRingIndex r' = pulseRingIndex f' \<and> pulseColorIndex r' = pulseColorIndex f'
           \<and> rings r' ! 0 = rings f' ! 0
           \<and> rings r' = CHSV 190 255 247 # map falloff (tl (rings r)))"
  proof
    assume l: "length (rings r) = 8"
    then obtain r0 r1 r2 r3 r4 r5 r6 r7 where rs: "rings r = [r0, r1, r2, r3, r4, r5, r6, r7]"
      using len8 [of "rings r"] by auto
    have i: "S_RingChase_Init r = \<lparr>rings = [r0, r1, r2, r3, r4, r5, r6, r7], pulseTimer = 0,
        pulseRingShiftTimer = 0, pulseRingIndex = 0, pulseColorIndex = 3\<rparr>"
      by (simp add: S_RingChase_Init_def S_RING_CHASE_NUM_PULSE_COLORS_def rs [symmetric])
    have n: "S_RingChase_new past_end = \<lparr>rings = [past_end, past_end, past_end, past_end,
        past_end, past_end, past_end, past_end], pulseTimer = 0,
        pulseRingShiftTimer = 0, pulseRingIndex = 0, pulseColorIndex = 3\<rparr>"
      by (simp add: S_RingChase_new_def Let_def rd_def upto8 config)
    show "\<exists>r' f'. S_RingChase_Update (S_RingChase_Init r) = Some (r', ring_ops (rings r'))
           \<and> S_RingChase_Update (S_RingChase_new past_end) = Some (f', ring_ops (rings f'))
           \<and> pulseTimer r' = pulseTimer f' \<and> pulseRingShiftTimer r' = pulseRingShiftTimer f'
           \<and> pulseRingIndex r' = pulseRingIndex f' \<and> pulseColorIndex r' = pulseColorIndex f'
           \<and> rings r' ! 0 = rings f' ! 0
           \<and> rings r' = CHSV 190 255 247 # map falloff (tl (rings r))"
      unfolding i n
      by (simp add: ring_pulse Let_def falloff_numeral S_RING_CHASE_COLORS_def rs)
  qed
  have d: "S_Twinkle_Init t = t" by (simp add: S_Twinkle_Init_def)
  from a b c d show ?thesis by blast
qed

theorem C3_init_reset_amended_witness:
  "trace_reachable (S_TraceChase_Init S_TraceChase_new)
   \<and> S_TraceChase_Init (S_TraceChase_Init S_TraceChase_new) = S_TraceChase_Init S_TraceChase_new
   \<and> length (rings (S_RingChase_new (CHSV 0 0 0))) = 8
   \<and> (\<exists>r'. S_RingChase_Update (S_RingChase_Init (S_RingChase_new (CHSV 0 0 0)))
             = Some (r', ring_ops (rings r'))
          \<and> rings r' ! 0 = CHSV 190 255 247)"
proof -
  have r: "trace_reachable (S_TraceChase_Init S_TraceChase_new)"
    by (intro trace_reachable.init trace_reachable.fresh)
  have l: "length (rings (S_RingChase_new (CHSV 0 0 0))) = 8"
    by (simp add: S_RingChase_new_def Let_def NUM_STRIPS_def upto8)
  from C3_init_reset_amended [of "S_TraceChase_Init S_TraceChase_new" "S_RingChase_new (CHSV 0 0 0)"
      "CHSV 0 0 0" S_Twinkle_new] r l
  show ?thesis by auto
qed

section \<open>TraceChase colours\<close>

text \<open>
  Claim C4 says that every strip paints with palette colour 0. On the first \<open>Update\<close> after
  \<open>Init\<close> strip 1 paints its three pixels (284, 283, 282) with palette colour 1 and strip 2
  with palette colour 2: the colour index advances after each strip and is reset to 0 only
  after the loop over the strips.
\<close>
theorem C4_trace_color_counterexample:
  "S_TraceChase_Update (S_TraceChase_Init S_TraceChase_new) =
     Some (\<lparr>traces = [3, 132, 33, 102, 63, 72, 93, 42], traceColorIndex = 0\<rparr>,
       [SetHSV 1 (CHSV 190 255 255), SetHSV 2 (CHSV 190 255 255), SetHSV 3 (CHSV 190 255 255),
        SetHSV 284 (CHSV 30 255 255), SetHSV 283 (CHSV 30 255 255), SetHSV 282 (CHSV 30 255 255),
        SetHSV 331 (CHSV 96 255 255), SetHSV 332 (CHSV 96 255 255), SetHSV 333 (CHSV 96 255 255),
        SetHSV 554 (CHSV 190 255 255), SetHSV 553 (CHSV 190 255 255), SetHSV 552 (CHSV 190 255 255),
        SetHSV 661 (CHSV 30 255 255), SetHSV 662 (CHSV 30 255 255), SetHSV 663 (CHSV 30 255 255),
        SetHSV 824 (CHSV 96 255 255), SetHSV 823 (CHSV 96 255 255), SetHSV 822 (CHSV 96 255 255),
        SetHSV 991 (CHSV 190 255 255), SetHSV 992 (CHSV 190 255 255), SetHSV 993 (CHSV 190 255 255),
        SetHSV 1094 (CHSV 30 255 255), SetHSV 1093 (CHSV 30 255 255), SetHSV 1092 (CHSV 30 255 255)]
       @ fade S_TRACE_FALLOFF_RATE)
   \<and> S_TRACE_CHASE_COLORS ! 0 = CHSV 190 255 255
   \<and> S_TRACE_CHASE_COLORS ! 1 = CHSV 30 255 255
   \<and> S_TRACE_CHASE_COLORS ! 2 = CHSV 96 255 255"
proof -
  have i: "S_TraceChase_Init S_TraceChase_new
      = \<lparr>traces = [0, 135, 30, 105, 60, 75, 90, 45], traceColorIndex = 0\<rparr>"
    by (subst trace_init_const) (simp_all add: S_TraceChase_new_def NUM_STRIPS_def upto8)
  have ok: "trace_ok \<lparr>traces = [0, 135, 30, 105, 60, 75, 90, 45], traceColorIndex = 0\<rparr>"
    by (simp add: trace_ok_def)
  show ?thesis
    unfolding i S_TraceChase_Update_exact [OF ok]
    by (simp add: upto8 upto13 GetStrip_def NUM_STRIP_LEDS_def S_TRACE_CHASE_COLORS_def)
qed

text \<open>
  Claim C4, amended. In every TraceChase \<open>Update\<close> strip \<open>i\<close> paints its three trace pixels
  with the palette colour of index \<open>i mod 3\<close>: a strip has the same colour on every tick,
  neighbouring strips differ, and the colour index is 0 again when \<open>Update\<close> returns.
\<close>
theorem C4_trace_color_amended:
  assumes "trace_reachable s"
  shows "\<exists>s'. S_TraceChase_Update s =
      Some (s', concat (map (\<lambda>i. map (\<lambda>k. SetHSV
                 (GetStrip i + (if i mod 2 = 1 then (traces s ! nat i - k) mod NUM_STRIP_LEDS
                                else (traces s ! nat i + k) mod NUM_STRIP_LEDS))
                 (S_TRACE_CHASE_COLORS ! nat (i mod S_TRACE_CHASE_NUM_COLORS)))
                   [1 .. S_TRACE_SPEED]) [0 .. NUM_STRIPS - 1])
            @ fade S_TRACE_FALLOFF_RATE)
      \<and> traceColorIndex s' = 0"
  using S_TraceChase_Update_exact [OF trace_reachable_ok [OF assms]]
    trace_reachable_ok [OF assms, unfolded trace_ok_def]
  unfolding NUM_STRIP_LEDS_def S_TRACE_CHASE_NUM_COLORS_def S_TRACE_SPEED_def NUM_STRIPS_def
  by simp

theorem C4_trace_color_amended_witness:
  "trace_reachable S_TraceChase_new
   \<and> (\<exists>s'. S_TraceChase_Update S_TraceChase_new =
      Some (s', concat (map (\<lambda>i. map (\<lambda>k. SetHSV
                 (GetStrip i + (if i mod 2 = 1 then (traces S_TraceChase_new ! nat i - k) mod NUM_STRIP_LEDS
                                else (traces S_TraceChase_new ! nat i + k) mod NUM_STRIP_LEDS))
                 (S_TRACE_CHASE_COLORS ! nat (i mod S_TRACE_CHASE_NUM_COLORS)))
                   [1 .. S_TRACE_SPEED]) [0 .. NUM_STRIPS - 1])
            @ fade S_TRACE_FALLOFF_RATE)
      \<and> traceColorIndex s' = 0)"
  using C4_trace_color_amended [OF trace_reachable.fresh] trace_reachable.fresh by simp

section \<open>RingChase pulses\<close>

text \<open>
  Claim C5. Let a pulse start on the next \<open>Update\<close> (the pulse timer is not positive), with
  pulse colour index \<open>c\<close>. After that tick and 14 more, every ring holds the hue and
  saturation of palette colour \<open>c\<close>, ring \<open>k\<close> at brightness \<open>255 - 8 * (15 - 2 * k)\<close>,
  whatever the rings held before: each ring has been assigned the pulse colour. One tick
  earlier ring 7 still holds its old value, decayed 14 times. The pulse colour index is
  the successor of the previous one modulo 3 (0 after the constructor's 3); the next pulse
  is due after 45 ticks, and after three pulses the index is back where it was.
\<close>
theorem C5_ring_pulse_propagation:
  assumes "ring_ok s" "pulseTimer s \<le> 0"
  defines "c \<equiv> (if pulseColorIndex s + 1 \<ge> S_RING_CHASE_NUM_PULSE_COLORS then 0
                 else pulseColorIndex s + 1)"
  shows "(\<exists>s15. ring_updates 15 s = Some s15
            \<and> rings s15 = map (\<lambda>k. CHSV (hue (S_RING_CHASE_COLORS ! nat c))
                                        (sat (S_RING_CHASE_COLORS ! nat c))
                                        (word_of_int (255 - 8 * (15 - 2 * k)))) [0 .. NUM_STRIPS - 1]
            \<and> pulseRingIndex s15 = NUM_STRIPS \<and> pulseColorIndex s15 = c)
    \<and> (\<exists>s14. ring_updates 14 s = Some s14
            \<and> rings s14 ! 7 = (falloff ^^ 14) (rings s ! 7) \<and> pulseRingIndex s14 = 7)
    \<and> 0 \<le> c \<and> c < 3 \<and> (pulseColorIndex s = 3 \<or> c = (pulseColorIndex s + 1) mod 3)
    \<and> (\<exists>s45. ring_updates 45 s = Some s45 \<and> ring_ok s45 \<and> pulseTimer s45 \<le> 0
            \<and> pulseColorIndex s45 = c)
    \<and> (pulseColorIndex s = 3
        \<or> (\<exists>s135. ring_updates 135 s = Some s135 \<and> ring_ok s135 \<and> pulseTimer s135 \<le> 0
              \<and> pulseColorIndex s135 = pulseColorIndex s))"
proof -
  from assms(1,2) have a: "length (rings s) = 8" "- 1 \<le> pulseColorIndex s" "pulseColorIndex s \<le> 3"
    and nn: "0 \<le> pulseColorIndex s"
    by (auto simp: ring_ok_def)
  have c: "c = (if pulseColorIndex s + 1 \<ge> 3 then 0 else pulseColorIndex s + 1)"
    by (simp add: c_def S_RING_CHASE_NUM_PULSE_COLORS_def)
  have c03: "0 \<le> c" "c < 3" using nn a by (auto simp: c)
  from a(1) obtain r0 r1 r2 r3 r4 r5 r6 r7 where rs: "rings s = [r0, r1, r2, r3, r4, r5, r6, r7]"
    using len8 [of "rings s"] by auto
  define hh where "hh = hue (S_RING_CHASE_COLORS ! nat c)"
  have pe: "S_RING_CHASE_COLORS ! nat c = CHSV hh 255 255"
    using palette_entry [OF c03] by (simp add: hh_def)
  define s1 where "s1 = \<lparr>rings = map falloff ([r0, r1, r2, r3, r4, r5, r6, r7][0 := S_RING_CHASE_COLORS ! nat c]),
       pulseTimer = 44, pulseRingShiftTimer = 1, pulseRingIndex = 1, pulseColorIndex = c\<rparr>"
  have u: "S_RingChase_Update s = Some (s1, ring_ops (rings s1))"
    by (subst ring_record [of s], subst ring_pulse [OF a assms(2)])
       (simp add: Let_def s1_def rs c)
  have "ring_updates 15 s = ring_updates 14 s1" using u by (simp add: ring_updates_numeral)
  also note ring_updates_14 [OF c03 pe, of r0 r1 r2 r3 r4 r5 r6 r7, folded s1_def]
  finally have p1: "\<exists>s15. ring_updates 15 s = Some s15
            \<and> rings s15 = map (\<lambda>k. CHSV (hue (S_RING_CHASE_COLORS ! nat c))
                                        (sat (S_RING_CHASE_COLORS ! nat c))
                                        (word_of_int (255 - 8 * (15 - 2 * k)))) [0 .. NUM_STRIPS - 1]
            \<and> pulseRingIndex s15 = NUM_STRIPS \<and> pulseColorIndex s15 = c"
    by (simp add: pe NUM_STRIPS_def upto8)
  have "ring_updates 14 s = ring_updates 13 s1" using u by (simp add: ring_updates_numeral)
  also note ring_updates_13 [OF c03 pe, of r0 r1 r2 r3 r4 r5 r6 r7, folded s1_def]
  finally have p2: "\<exists>s14. ring_updates 14 s = Some s14
            \<and> rings s14 ! 7 = (falloff ^^ 14) (rings s ! 7) \<and> pulseRingIndex s14 = 7"
    by (simp add: rs)
  from nn a consider "pulseColorIndex s = 0" | "pulseColorIndex s = 1" | "pulseColorIndex s = 2"
    | "pulseColorIndex s = 3" by linarith
  then have p3: "pulseColorIndex s = 3 \<or> c = (pulseColorIndex s + 1) mod 3"
    by cases (simp_all add: c)
  from ring_pulse_cycle [OF assms(1,2)] obtain s45 where
    s45: "ring_updates 45 s = Some s45" "ring_ok s45" "pulseTimer s45 = 0" "pulseColorIndex s45 = c"
    by (auto simp: c)
  then have p4: "\<exists>s45. ring_updates 45 s = Some s45 \<and> ring_ok s45 \<and> pulseTimer s45 \<le> 0
            \<and> pulseColorIndex s45 = c" by simp
  have p5: "pulseColorIndex s = 3
        \<or> (\<exists>s135. ring_updates 135 s = Some s135 \<and> ring_ok s135 \<and> pulseTimer s135 \<le> 0
              \<and> pulseColorIndex s135 = pulseColorIndex s)"
  proof (cases "pulseColorIndex s = 3")
    case True
    then show ?thesis by simp
  next
    case False
    from s45 have "pulseTimer s45 \<le> 0" by simp
    from ring_pulse_cycle [OF s45(2) this] obtain s90 where
      s90: "ring_updates 45 s45 = Some s90" "ring_ok s90" "pulseTimer s90 = 0"
        "pulseColorIndex s90 = (if c + 1 \<ge> 3 then 0 else c + 1)"
      by (auto simp: s45(4))
    from s90 have "pulseTimer s90 \<le> 0" by simp
    from ring_pulse_cycle [OF s90(2) this] obtain s135 where
      s135: "ring_updates 45 s90 = Some s135" "ring_ok s135" "pulseTimer s135 = 0"
        "pulseColorIndex s135 = (if pulseColorIndex s90 + 1 \<ge> 3 then 0 else pulseColorIndex s90 + 1)"
      by auto
    have "ring_updates 135 s = ring_updates (45 + (45 + 45)) s" by simp
    also have "\<dots> = Some s135"
      by (simp only: ring_updates_add s45(1) s90(1) s135(1) Option.bind.simps)
    finally have "ring_updates 135 s = Some s135" .
    moreover have "pulseColorIndex s135 = pulseColorIndex s"
      using False nn a by (auto simp: s135(4) s90(4) c)
    ultimately show ?thesis using s135 by simp
  qed
  from p1 p2 c03 p3 p4 p5 show ?thesis by blast
qed

theorem C5_ring_pulse_propagation_witness:
  "ring_ok (S_RingChase_new (CHSV 0 0 0)) \<and> pulseTimer (S_RingChase_new (CHSV 0 0 0)) \<le> 0
   \<and> (\<exists>s15. ring_updates 15 (S_RingChase_new (CHSV 0 0 0)) = Some s15
        \<and> rings s15 = [CHSV 190 255 135, CHSV 190 255 151, CHSV 190 255 167, CHSV 190 255 183,
                        CHSV 190 255 199, CHSV 190 255 215, CHSV 190 255 231, CHSV 190 255 247]
        \<and> pulseColorIndex s15 = 0)"
proof -
  have a: "ring_ok (S_RingChase_new (CHSV 0 0 0))" "pulseTimer (S_RingChase_new (CHSV 0 0 0)) \<le> 0"
    by (simp_all add: ring_ok_def S_RingChase_new_def Let_def config upto8)
  have b: "pulseColorIndex (S_RingChase_new (CHSV 0 0 0)) = 3"
    by (simp add: S_RingChase_new_def Let_def config)
  from C5_ring_pulse_propagation [OF a] a show ?thesis
    by (auto simp: b config upto8)
qed

section \<open>Twinkle positions and brightness\<close>

text \<open>
  Claim C6. On a tick where the twinkle timer fires, for every value the random source
  returns, Twinkle writes one pixel: its position is between 1 and the buffer length minus 3,
  so never index 0 and never the last index, and its brightness is between
  \<open>255 - variance = 155\<close> and 254. All other buffer operations of the tick are \<open>nscale8\<close>.
\<close>
theorem C6_twinkle_position_brightness:
  assumes "twinkleTimer s \<le> 0"
  shows "\<exists>pos b. S_Twinkle_Update (r1, r2, r3) s =
       Some (s\<lparr>twinkleTimer := S_TWINKLE_FREQUENCY - 1\<rparr>,
             SetHSV pos (CHSV 190 255 b) # fade S_TWINKLE_FALLOFF_RATE)
     \<and> pos = random_range r1 1 (NUM_STRIPS * NUM_STRIP_LEDS - 2)
     \<and> 1 \<le> pos \<and> pos \<le> NUM_STRIPS * NUM_STRIP_LEDS - 3
     \<and> pos \<noteq> 0 \<and> pos \<noteq> NUM_STRIPS * NUM_STRIP_LEDS - 1
     \<and> uint b = random_range r2 (255 - S_TWINKLE_BRIGHTNESS_VARIANCE) 255
     \<and> 255 - S_TWINKLE_BRIGHTNESS_VARIANCE \<le> uint b \<and> uint b \<le> 254
     \<and> (\<forall>op \<in> set (fade S_TWINKLE_FALLOFF_RATE). \<exists>i. op = Nscale8 i 245)"
proof -
  define pos where "pos = random_range r1 1 (NUM_STRIPS * NUM_STRIP_LEDS - 2)"
  define br where "br = random_range r2 (255 - S_TWINKLE_BRIGHTNESS_VARIANCE) 255"
  have pb: "1 \<le> pos \<and> pos \<le> NUM_STRIPS * NUM_STRIP_LEDS - 3"
    unfolding pos_def
    using random_range_bounds [of 1 "NUM_STRIPS * NUM_STRIP_LEDS - 2" r1]
    by (simp add: NUM_STRIPS_def NUM_STRIP_LEDS_def)
  have bb: "255 - S_TWINKLE_BRIGHTNESS_VARIANCE \<le> br \<and> br \<le> 254"
    unfolding br_def
    using random_range_bounds [of "255 - S_TWINKLE_BRIGHTNESS_VARIANCE" 255 r2]
    by (simp add: S_TWINKLE_BRIGHTNESS_VARIANCE_def)
  have "uint (word_of_int br :: 8 word) = br mod 2 ^ LENGTH(8)"
    by (rule uint_word_of_int)
  also have "\<dots> = br" using bb by (simp add: S_TWINKLE_BRIGHTNESS_VARIANCE_def)
  finally have u: "uint (word_of_int br :: 8 word) = br" .
  have f: "\<forall>op \<in> set (fade S_TWINKLE_FALLOFF_RATE). \<exists>i. op = Nscale8 i 245"
    using fade_range [of _ S_TWINKLE_FALLOFF_RATE] by (auto simp: S_TWINKLE_FALLOFF_RATE_def)
  have upd: "S_Twinkle_Update (r1, r2, r3) s =
       Some (s\<lparr>twinkleTimer := S_TWINKLE_FREQUENCY - 1\<rparr>,
             SetHSV pos (CHSV 190 255 (word_of_int br)) # fade S_TWINKLE_FALLOFF_RATE)"
    using assms
    by (simp add: S_Twinkle_Update_def Let_def rd_def random_howbig_def S_TWINKLE_NUM_COLORS_def
        S_TWINKLE_COLORS_def pos_def br_def)
  have "pos \<noteq> 0 \<and> pos \<noteq> NUM_STRIPS * NUM_STRIP_LEDS - 1" using pb by linarith
  with upd pb bb u f show ?thesis
    unfolding pos_def [symmetric] br_def [symmetric]
    by (intro exI [of _ pos] exI [of _ "word_of_int br"]) (simp add: pos_def br_def)
qed

theorem C6_twinkle_position_brightness_witness:
  "twinkleTimer S_Twinkle_new \<le> 0
   \<and> S_Twinkle_Update (0, 99, 7) S_Twinkle_new =
       Some (\<lparr>twinkleTimer = 1\<rparr>, SetHSV 1 (CHSV 190 255 254) # fade S_TWINKLE_FALLOFF_RATE)"
proof -
  have a: "twinkleTimer S_Twinkle_new \<le> 0" by (simp add: S_Twinkle_new_def)
  from C6_twinkle_position_brightness [OF a, of 0 99 7] obtain pos b where
    u: "S_Twinkle_Update (0, 99, 7) S_Twinkle_new =
       Some (S_Twinkle_new\<lparr>twinkleTimer := S_TWINKLE_FREQUENCY - 1\<rparr>,
             SetHSV pos (CHSV 190 255 b) # fade S_TWINKLE_FALLOFF_RATE)"
    and p: "pos = random_range 0 1 (NUM_STRIPS * NUM_STRIP_LEDS - 2)"
    and b: "uint b = random_range 99 (255 - S_TWINKLE_BRIGHTNESS_VARIANCE) 255"
    by blast
  from p have "pos = 1"
    by (simp add: random_range_def random_howbig_def NUM_STRIPS_def NUM_STRIP_LEDS_def)
  moreover from b have "uint b = uint (254 :: 8 word)"
    by (simp add: random_range_def random_howbig_def S_TWINKLE_BRIGHTNESS_VARIANCE_def)
  then have "b = 254" by (simp only: word_uint_eq_iff)
  ultimately show ?thesis using u a
    by (simp add: S_Twinkle_new_def S_TWINKLE_FREQUENCY_def)
qed

section \<open>TraceChase positions\<close>

text \<open>
  Claim C7. With \<^verbatim>\<open>ZIG_ZAG\<close> set, from every reachable state one \<open>Update\<close> moves the
  position of each even strip forward and of each odd strip backward by \<open>S_TRACE_SPEED = 3\<close>,
  modulo the strip length, and the position stays inside the strip. After \<open>n\<close> updates the
  position is the start plus or minus \<open>3 * n\<close> modulo 150: the positions are back after the
  trace has advanced 150 positions (50 updates), hence also after 150 updates, and
  \<open>n + 150\<close> updates give the same state as \<open>n\<close>.
\<close>
theorem C7_trace_positions_periodic:
  assumes "trace_reachable s"
  shows "(\<exists>s' ops. S_TraceChase_Update s = Some (s', ops) \<and> trace_reachable s'
           \<and> (\<forall>i<8. traces s' ! i =
                 (if even i then (traces s ! i + S_TRACE_SPEED) mod NUM_STRIP_LEDS
                  else (traces s ! i - S_TRACE_SPEED) mod NUM_STRIP_LEDS)
                 \<and> 0 \<le> traces s' ! i \<and> traces s' ! i < NUM_STRIP_LEDS))
    \<and> (\<exists>sn. trace_updates n s = Some sn
           \<and> (\<forall>i<8. traces sn ! i =
                 (if even i then (traces s ! i + S_TRACE_SPEED * int n) mod NUM_STRIP_LEDS
                  else (traces s ! i - S_TRACE_SPEED * int n) mod NUM_STRIP_LEDS)))
    \<and> trace_updates 50 s = Some s
    \<and> trace_updates (nat NUM_STRIP_LEDS) s = Some s
    \<and> trace_updates (n + nat NUM_STRIP_LEDS) s = trace_updates n s"
proof -
  from assms have ok: "trace_ok s" by (rule trace_reachable_ok)
  from S_TraceChase_Update_exact [OF ok] obtain s' ops where
    u: "S_TraceChase_Update s = Some (s', ops)"
    and t: "traces s' = map (\<lambda>i. if i mod 2 = 1 then (traces s ! nat i - 3) mod 150
                                else (traces s ! nat i + 3) mod 150) [0 .. 7]"
    by simp
  from assms u have r: "trace_reachable s'" by (rule trace_reachable.update)
  have "\<forall>i<8. traces s' ! i =
                 (if even i then (traces s ! i + S_TRACE_SPEED) mod NUM_STRIP_LEDS
                  else (traces s ! i - S_TRACE_SPEED) mod NUM_STRIP_LEDS)
                 \<and> 0 \<le> traces s' ! i \<and> traces s' ! i < NUM_STRIP_LEDS"
    by (auto dest!: less8 simp: t upto8 S_TRACE_SPEED_def NUM_STRIP_LEDS_def)
  with u r have p1: "\<exists>s' ops. S_TraceChase_Update s = Some (s', ops) \<and> trace_reachable s'
           \<and> (\<forall>i<8. traces s' ! i =
                 (if even i then (traces s ! i + S_TRACE_SPEED) mod NUM_STRIP_LEDS
                  else (traces s ! i - S_TRACE_SPEED) mod NUM_STRIP_LEDS)
                 \<and> 0 \<le> traces s' ! i \<and> traces s' ! i < NUM_STRIP_LEDS)" by blast
  have p2: "\<exists>sn. trace_updates n s = Some sn
           \<and> (\<forall>i<8. traces sn ! i =
                 (if even i then (traces s ! i + S_TRACE_SPEED * int n) mod NUM_STRIP_LEDS
                  else (traces s ! i - S_TRACE_SPEED * int n) mod NUM_STRIP_LEDS))"
    unfolding trace_updates_closed [OF ok]
    by (auto dest!: less8 simp: upto8 S_TRACE_SPEED_def NUM_STRIP_LEDS_def)
  have p3: "trace_updates 50 s = Some s"
    by (rule trace_updates_period [OF ok]) simp
  have p4: "trace_updates (nat NUM_STRIP_LEDS) s = Some s"
    by (rule trace_updates_period [OF ok]) (simp add: NUM_STRIP_LEDS_def)
  from ok have "trace_updates (nat NUM_STRIP_LEDS + n) s = trace_updates n s"
    by (simp only: trace_updates_add p4 Option.bind.simps)
  then have p5: "trace_updates (n + nat NUM_STRIP_LEDS) s = trace_updates n s"
    by (simp add: add.commute)
  from p1 p2 p3 p4 p5 show ?thesis by blast
qed

theorem C7_trace_positions_periodic_witness:
  "trace_reachable (S_TraceChase_Init S_TraceChase_new)
   \<and> (\<exists>s' ops. S_TraceChase_Update (S_TraceChase_Init S_TraceChase_new) = Some (s', ops)
         \<and> traces s' ! 0 = 3 \<and> traces s' ! 1 = 132 \<and> traces s' ! 7 = 42)
   \<and> trace_updates 50 (S_TraceChase_Init S_TraceChase_new) = Some (S_TraceChase_Init S_TraceChase_new)"
proof -
  have r: "trace_reachable (S_TraceChase_Init S_TraceChase_new)"
    by (intro trace_reachable.init trace_reachable.fresh)
  have t: "traces (S_TraceChase_Init S_TraceChase_new) = [0, 135, 30, 105, 60, 75, 90, 45]"
    by (subst trace_init_const) (simp_all add: S_TraceChase_new_def NUM_STRIPS_def upto8)
  from C7_trace_positions_periodic [OF r, of 0] r show ?thesis
    by (auto simp: t S_TRACE_SPEED_def NUM_STRIP_LEDS_def)
qed

section \<open>WrapUp and the colour buffer\<close>

text \<open>
  Claim C8. \<open>WrapUp\<close> leaves every entry of the colour buffer unchanged, for every sequence
  and every state: dispatched on a registered sequence it returns, the buffer and the
  scheduler's variables are the same, Twinkle's and TraceChase's states are unchanged, and
  RingChase's changes in the pulse timer only.
\<close>
theorem C8_wrapup_frame:
  "(call_WrapUp e = Some e' \<longrightarrow>
      leds e' = leds e \<and> sequenceTimer e' = sequenceTimer e \<and> ledSequence e' = ledSequence e
      \<and> twinkle e' = twinkle e \<and> traceChase e' = traceChase e
      \<and> ringChase e' = (if ledSequence e = 0 then (ringChase e)\<lparr>pulseTimer := 9999\<rparr>
                         else ringChase e))
   \<and> (0 \<le> ledSequence e \<and> ledSequence e < NUM_SEQUENCES \<longrightarrow> (\<exists>e'. call_WrapUp e = Some e'))
   \<and> S_Twinkle_WrapUp t = t \<and> S_TraceChase_WrapUp u = u
   \<and> S_RingChase_WrapUp r = r\<lparr>pulseTimer := 9999\<rparr>"
proof -
  have "0 \<le> ledSequence e \<and> ledSequence e < NUM_SEQUENCES \<longrightarrow> (\<exists>e'. call_WrapUp e = Some e')"
  proof
    assume "0 \<le> ledSequence e \<and> ledSequence e < NUM_SEQUENCES"
    then consider "ledSequence e = 0" | "ledSequence e = 1" | "ledSequence e = 2"
      unfolding NUM_SEQUENCES_def by linarith
    then show "\<exists>e'. call_WrapUp e = Some e'"
      by cases (simp_all add: call_WrapUp_def)
  qed
  then show ?thesis
    by (auto simp: call_WrapUp_def S_Twinkle_WrapUp_def S_TraceChase_WrapUp_def
        S_RingChase_WrapUp_def split: if_splits)
qed

theorem C8_wrapup_frame_witness:
  "0 \<le> ledSequence (setup_engine (CHSV 0 0 0))
   \<and> ledSequence (setup_engine (CHSV 0 0 0)) < NUM_SEQUENCES
   \<and> call_WrapUp (setup_engine (CHSV 0 0 0))
     = Some ((setup_engine (CHSV 0 0 0))
          \<lparr>ringChase := (ringChase (setup_engine (CHSV 0 0 0)))\<lparr>pulseTimer := 9999\<rparr>\<rparr>)
   \<and> leds ((setup_engine (CHSV 0 0 0))
          \<lparr>ringChase := (ringChase (setup_engine (CHSV 0 0 0)))\<lparr>pulseTimer := 9999\<rparr>\<rparr>)
     = leds (setup_engine (CHSV 0 0 0))"
proof -
  have s: "ledSequence (setup_engine (CHSV 0 0 0)) = 0" by (simp add: setup_engine_def)
  have w: "call_WrapUp (setup_engine (CHSV 0 0 0))
     = Some ((setup_engine (CHSV 0 0 0))
          \<lparr>ringChase := (ringChase (setup_engine (CHSV 0 0 0)))\<lparr>pulseTimer := 9999\<rparr>\<rparr>)"
    by (simp add: call_WrapUp_def s S_RingChase_WrapUp_def)
  from C8_wrapup_frame [of "setup_engine (CHSV 0 0 0)" "(setup_engine (CHSV 0 0 0))
          \<lparr>ringChase := (ringChase (setup_engine (CHSV 0 0 0)))\<lparr>pulseTimer := 9999\<rparr>\<rparr>"] w
  have "leds ((setup_engine (CHSV 0 0 0))
          \<lparr>ringChase := (ringChase (setup_engine (CHSV 0 0 0)))\<lparr>pulseTimer := 9999\<rparr>\<rparr>)
     = leds (setup_engine (CHSV 0 0 0))" by blast
  with w s show ?thesis by (simp add: NUM_SEQUENCES_def)
qed

section \<open>Buffer indices\<close>

text \<open>
  Claim C9. Every index used to write the colour buffer lies within
  \<open>0 ..< NUM_STRIPS * NUM_STRIP_LEDS\<close>. The main loop, run for any number of ticks on any
  values of the random source, never faults, where an access outside an array is a fault.
  For each sequence: every buffer operation of RingChase's and Twinkle's \<open>Update\<close> is in
  range; every reachable TraceChase state has \<open>0 \<le> traces[i] < NUM_STRIP_LEDS\<close>, its
  \<open>Update\<close> returns and writes in range; \<open>GetStrip i + x\<close> is in range for a strip \<open>i\<close> and a
  position \<open>x\<close> inside the strip. Carrying out a list of buffer operations succeeds exactly
  when all its indices are inside the buffer.
\<close>
theorem C9_buffer_indices_in_range:
  "(\<exists>e css. run cv ds (setup_engine past_end) = Some (e, css))
   \<and> (ring_ok s \<longrightarrow>
        (\<exists>s' ops. S_RingChase_Update s = Some (s', ops)
           \<and> (\<forall>op \<in> set ops. 0 \<le> op_index op \<and> op_index op < NUM_STRIPS * NUM_STRIP_LEDS)))
   \<and> (\<exists>t' ops. S_Twinkle_Update d t = Some (t', ops)
           \<and> (\<forall>op \<in> set ops. 0 \<le> op_index op \<and> op_index op < NUM_STRIPS * NUM_STRIP_LEDS))
   \<and> (trace_reachable u \<longrightarrow>
        (\<forall>x \<in> set (traces u). 0 \<le> x \<and> x < NUM_STRIP_LEDS)
        \<and> (\<exists>u' ops. S_TraceChase_Update u = Some (u', ops)
              \<and> (\<forall>op \<in> set ops. 0 \<le> op_index op \<and> op_index op < NUM_STRIPS * NUM_STRIP_LEDS)))
   \<and> (0 \<le> i \<and> i < NUM_STRIPS \<and> 0 \<le> x \<and> x < NUM_STRIP_LEDS \<longrightarrow>
        0 \<le> GetStrip i + x \<and> GetStrip i + x < NUM_STRIPS * NUM_STRIP_LEDS)
   \<and> (exec_ops cv ops l = Some l' \<longrightarrow>
        (\<forall>op \<in> set ops. 0 \<le> op_index op \<and> op_index op < int (length l)))
   \<and> ((\<forall>op \<in> set ops. 0 \<le> op_index op \<and> op_index op < int (length l)) \<longrightarrow>
        (\<exists>l'. exec_ops cv ops l = Some l'))"
proof -
  have n: "NUM_STRIPS * NUM_STRIP_LEDS = 1200" by (simp add: NUM_STRIPS_def NUM_STRIP_LEDS_def)
  have a: "\<exists>e css. run cv ds (setup_engine past_end) = Some (e, css)"
    using run_ok [OF setup_ok, of cv ds past_end] by blast
  have b: "ring_ok s \<longrightarrow>
        (\<exists>s' ops. S_RingChase_Update s = Some (s', ops)
           \<and> (\<forall>op \<in> set ops. 0 \<le> op_index op \<and> op_index op < NUM_STRIPS * NUM_STRIP_LEDS))"
  proof
    assume "ring_ok s"
    from ring_update_ok [OF this] obtain s' where
      "S_RingChase_Update s = Some (s', ring_ops (rings s'))" by blast
    moreover have "\<forall>op \<in> set (ring_ops (rings s')). 0 \<le> op_index op \<and> op_index op < 1200"
      using ring_ops_range [of _ "rings s'"] by blast
    ultimately show "\<exists>s' ops. S_RingChase_Update s = Some (s', ops)
           \<and> (\<forall>op \<in> set ops. 0 \<le> op_index op \<and> op_index op < NUM_STRIPS * NUM_STRIP_LEDS)"
      unfolding n by blast
  qed
  have "\<exists>t' ops. S_Twinkle_Update d t = Some (t', ops)"
    by (cases d) (simp add: twinkle_update)
  then obtain t' tops where tu: "S_Twinkle_Update d t = Some (t', tops)" by blast
  have "\<forall>op \<in> set tops. 0 \<le> op_index op \<and> op_index op < 1200"
    using twinkle_ops_range [OF tu] by blast
  with tu have c: "\<exists>t' ops. S_Twinkle_Update d t = Some (t', ops)
           \<and> (\<forall>op \<in> set ops. 0 \<le> op_index op \<and> op_index op < NUM_STRIPS * NUM_STRIP_LEDS)"
    unfolding n by blast
  have dd: "trace_reachable u \<longrightarrow>
        (\<forall>x \<in> set (traces u). 0 \<le> x \<and> x < NUM_STRIP_LEDS)
        \<and> (\<exists>u' ops. S_TraceChase_Update u = Some (u', ops)
              \<and> (\<forall>op \<in> set ops. 0 \<le> op_index op \<and> op_index op < NUM_STRIPS * NUM_STRIP_LEDS))"
  proof
    assume "trace_reachable u"
    then have ok: "trace_ok u" by (rule trace_reachable_ok)
    then have "\<forall>x \<in> set (traces u). 0 \<le> x \<and> x < NUM_STRIP_LEDS"
      by (simp add: trace_ok_def NUM_STRIP_LEDS_def)
    moreover from trace_update_ok [OF ok] have "\<exists>u' ops. S_TraceChase_Update u = Some (u', ops)
              \<and> (\<forall>op \<in> set ops. 0 \<le> op_index op \<and> op_index op < NUM_STRIPS * NUM_STRIP_LEDS)"
      unfolding n by blast
    ultimately show "(\<forall>x \<in> set (traces u). 0 \<le> x \<and> x < NUM_STRIP_LEDS)
        \<and> (\<exists>u' ops. S_TraceChase_Update u = Some (u', ops)
              \<and> (\<forall>op \<in> set ops. 0 \<le> op_index op \<and> op_index op < NUM_STRIPS * NUM_STRIP_LEDS))"
      by blast
  qed
  have e: "0 \<le> i \<and> i < NUM_STRIPS \<and> 0 \<le> x \<and> x < NUM_STRIP_LEDS \<longrightarrow>
        0 \<le> GetStrip i + x \<and> GetStrip i + x < NUM_STRIPS * NUM_STRIP_LEDS"
    by (simp add: GetStrip_def NUM_STRIPS_def NUM_STRIP_LEDS_def)
  have f: "exec_ops cv ops l = Some l' \<longrightarrow>
        (\<forall>op \<in> set ops. 0 \<le> op_index op \<and> op_index op < int (length l))"
    using exec_ops_Some [of cv ops l l'] by blast
  have g: "(\<forall>op \<in> set ops. 0 \<le> op_index op \<and> op_index op < int (length l)) \<longrightarrow>
        (\<exists>l'. exec_ops cv ops l = Some l')"
    using exec_ops_ok [of ops l cv] by blast
  from a b c dd e f g show ?thesis by blast
qed

theorem C9_buffer_indices_in_range_witness:
  "ring_ok (S_RingChase_new (CHSV 0 0 0))
   \<and> trace_reachable S_TraceChase_new
   \<and> (0::int) \<le> 7 \<and> 7 < NUM_STRIPS \<and> (0::int) \<le> 149 \<and> 149 < NUM_STRIP_LEDS
   \<and> GetStrip 7 + 149 = 1199
   \<and> exec_ops (\<lambda>c. CRGB (hue c) (sat c) (val c)) [SetHSV 0 (CHSV 1 2 3)] [CRGB 0 0 0]
       = Some [CRGB 1 2 3]
   \<and> (\<exists>e css. run (\<lambda>c. CRGB (hue c) (sat c) (val c)) [(0, 0, 0)] (setup_engine (CHSV 0 0 0))
         = Some (e, css))
   \<and> (\<exists>u' ops. S_TraceChase_Update S_TraceChase_new = Some (u', ops))"
proof -
  have a: "ring_ok (S_RingChase_new (CHSV 0 0 0))"
    by (simp add: ring_ok_def S_RingChase_new_def Let_def config upto8)
  have b: "trace_reachable S_TraceChase_new" by (rule trace_reachable.fresh)
  have c: "exec_ops (\<lambda>c. CRGB (hue c) (sat c) (val c)) [SetHSV 0 (CHSV 1 2 3)] [CRGB 0 0 0]
       = Some [CRGB 1 2 3]"
    by (simp add: wr_def)
  have d: "GetStrip 7 + 149 = 1199" by (simp add: GetStrip_def NUM_STRIP_LEDS_def)
  from C9_buffer_indices_in_range [of "\<lambda>c. CRGB (hue c) (sat c) (val c)" "[(0, 0, 0)]" "CHSV 0 0 0"
      "S_RingChase_new (CHSV 0 0 0)" "(0, 0, 0)" S_Twinkle_new S_TraceChase_new 7 149
      "[SetHSV 0 (CHSV 1 2 3)]" "[CRGB 0 0 0]" "[CRGB 1 2 3]"] b
  have "(\<exists>e css. run (\<lambda>c. CRGB (hue c) (sat c) (val c)) [(0, 0, 0)] (setup_engine (CHSV 0 0 0))
         = Some (e, css))"
    and "(\<exists>u' ops. S_TraceChase_Update S_TraceChase_new = Some (u', ops))"
    by blast+
  with a b c d show ?thesis by (simp add: NUM_STRIPS_def NUM_STRIP_LEDS_def)
qed

section \<open>The RingChase constructor reads past the palette\<close>

text \<open>
  Claim C10. The constructor and \<open>Init\<close> of \<open>S_RingChase\<close> set the pulse colour index to the
  length of the palette, 3. The constructor reads the palette at this index: the checked read
  fails, the index is one position past the end of the three-element array, and every
  initial ring holds the value found past the end of the palette instead of a palette entry.
\<close>
theorem C10_ring_chase_constructor_reads_past_palette:
  "pulseColorIndex (S_RingChase_new past_end) = int (length S_RING_CHASE_COLORS)
   \<and> pulseColorIndex (S_RingChase_Init s) = int (length S_RING_CHASE_COLORS)
   \<and> length S_RING_CHASE_COLORS = 3
   \<and> rd S_RING_CHASE_COLORS (pulseColorIndex (S_RingChase_new past_end)) = None
   \<and> rings (S_RingChase_new past_end) = replicate 8 past_end"
  by (simp add: S_RingChase_new_def S_RingChase_Init_def rd_def config Let_def upto8
      numeral_eq_Suc)

end
